theory Spec2Isabelle
  imports Complex_Main "HOL-Library.List_Lexorder" "HOL-Library.Char_ord"
    "HOL-Library.Log_Nat"
begin

section \<open>Time\<close>

text \<open>
  Go's \<^verbatim>\<open>time.Duration\<close> is a signed count of nanoseconds and a \<^verbatim>\<open>time.Time\<close> is
  read here as nanoseconds on one clock, so both are integers. Functions that call
  \<^verbatim>\<open>time.Now()\<close> take the reading as an argument \<open>now\<close>.
\<close>

type_synonym Duration = int
type_synonym Time = int

definition Millisecond :: Duration where
  "Millisecond = 1000000"

definition Second :: Duration where
  "Second = 1000 * Millisecond"

definition Minute :: Duration where
  "Minute = 60 * Second"

section \<open>Errors\<close>

text \<open>
  \<^verbatim>\<open>ErrorCode\<close> is a string type. A Go \<^verbatim>\<open>error\<close> is either a \<^verbatim>\<open>*FlagKitError\<close> or an error of
  another package, of which only the text is kept.
\<close>

type_synonym ErrorCode = string

definition ErrCircuitOpen :: ErrorCode where "ErrCircuitOpen = ''CIRCUIT_OPEN''"
definition ErrNetworkError :: ErrorCode where "ErrNetworkError = ''NETWORK_ERROR''"
definition ErrNetworkTimeout :: ErrorCode where "ErrNetworkTimeout = ''NETWORK_TIMEOUT''"
definition ErrNetworkRetryLimit :: ErrorCode where "ErrNetworkRetryLimit = ''NETWORK_RETRY_LIMIT''"
definition ErrAuthUnauthorized :: ErrorCode where "ErrAuthUnauthorized = ''AUTH_UNAUTHORIZED''"
definition ErrAuthInvalidKey :: ErrorCode where "ErrAuthInvalidKey = ''AUTH_INVALID_KEY''"
definition ErrEvalFlagNotFound :: ErrorCode where "ErrEvalFlagNotFound = ''EVAL_FLAG_NOT_FOUND''"
definition ErrCacheExpired :: ErrorCode where "ErrCacheExpired = ''CACHE_EXPIRED''"
definition ErrEvalStaleValue :: ErrorCode where "ErrEvalStaleValue = ''EVAL_STALE_VALUE''"
definition ErrEvalCacheMiss :: ErrorCode where "ErrEvalCacheMiss = ''EVAL_CACHE_MISS''"
definition ErrEvalNetworkError :: ErrorCode where "ErrEvalNetworkError = ''EVAL_NETWORK_ERROR''"
definition ErrEventSendFailed :: ErrorCode where "ErrEventSendFailed = ''EVENT_SEND_FAILED''"
definition ErrSecuritySignatureInvalid :: ErrorCode where
  "ErrSecuritySignatureInvalid = ''SECURITY_SIGNATURE_INVALID''"
definition ErrSecurityEncryptionFailed :: ErrorCode where
  "ErrSecurityEncryptionFailed = ''SECURITY_ENCRYPTION_FAILED''"
definition ErrSecurityDecryptionFailed :: ErrorCode where
  "ErrSecurityDecryptionFailed = ''SECURITY_DECRYPTION_FAILED''"

datatype go_error =
    FlagKitError (Code: ErrorCode) (Message: string) (Cause: "go_error option")
      (Recoverable: bool)
  | OtherError string

text \<open>The constructors of package \<^verbatim>\<open>internal\<close>, used by the HTTP client.\<close>

definition isRecoverableCode :: "ErrorCode \<Rightarrow> bool" where
  "isRecoverableCode code \<longleftrightarrow>
     code = ErrNetworkError \<or> code = ErrNetworkTimeout \<or> code = ErrNetworkRetryLimit
     \<or> code = ErrCircuitOpen"

definition NewError :: "ErrorCode \<Rightarrow> string \<Rightarrow> go_error" where
  "NewError code message = FlagKitError code message None (isRecoverableCode code)"

definition NewErrorWithCause :: "ErrorCode \<Rightarrow> string \<Rightarrow> go_error option \<Rightarrow> go_error" where
  "NewErrorWithCause code message cause =
     FlagKitError code message cause (isRecoverableCode code)"

definition NetworkError :: "ErrorCode \<Rightarrow> string \<Rightarrow> go_error option \<Rightarrow> go_error" where
  "NetworkError code message cause = NewErrorWithCause code message cause"

text \<open>The constructors of the public package \<^verbatim>\<open>errors\<close>, used by the security code.\<close>

definition isRecoverable :: "ErrorCode \<Rightarrow> bool" where
  "isRecoverable code \<longleftrightarrow>
     code = ErrNetworkError \<or> code = ErrNetworkTimeout \<or> code = ErrNetworkRetryLimit
     \<or> code = ErrCircuitOpen \<or> code = ErrCacheExpired \<or> code = ErrEvalStaleValue
     \<or> code = ErrEvalCacheMiss \<or> code = ErrEvalNetworkError \<or> code = ErrEventSendFailed"

definition errors_NewError :: "ErrorCode \<Rightarrow> string \<Rightarrow> go_error" where
  "errors_NewError code message = FlagKitError code message None (isRecoverable code)"

definition errors_NewErrorWithCause :: "ErrorCode \<Rightarrow> string \<Rightarrow> go_error option \<Rightarrow> go_error" where
  "errors_NewErrorWithCause code message cause =
     FlagKitError code message cause (isRecoverable code)"

definition SecurityError :: "ErrorCode \<Rightarrow> string \<Rightarrow> go_error" where
  "SecurityError code message = FlagKitError code message None False"

section \<open>Formatting\<close>

text \<open>\<^verbatim>\<open>strconv.FormatInt(i, 10)\<close>, \<^verbatim>\<open>strconv.Itoa\<close> and the verb \<^verbatim>\<open>%d\<close>: the decimal digits.\<close>

fun nat_digits :: "nat \<Rightarrow> string" where
  "nat_digits n =
     (if n < 10 then [''0123456789'' ! n]
      else nat_digits (n div 10) @ [''0123456789'' ! (n mod 10)])"

definition FormatInt :: "int \<Rightarrow> string" where
  "FormatInt i = (if i < 0 then CHR ''-'' # nat_digits (nat (- i)) else nat_digits (nat i))"

text \<open>\<^verbatim>\<open>strings.Join(parts, sep)\<close>.\<close>

fun join :: "string \<Rightarrow> string list \<Rightarrow> string" where
  "join sep [] = []"
| "join sep [x] = x"
| "join sep (x # y # ys) = x @ sep @ join sep (y # ys)"


section \<open>Panics\<close>

text \<open>
  A call either returns its results or panics with a message; a panic in a callee that
  the caller does not recover is the caller's panic.
\<close>

datatype 'a outcome = Returns 'a | Panics string
section \<open>Flag values and flag state (types)\<close>

text \<open>
  A flag value is a Go \<^verbatim>\<open>any\<close>. The dynamic types the SDK inspects are kept apart; floats
  are modelled as rationals, a \<^verbatim>\<open>map[string]any\<close> as the list of its key-value pairs (keys
  distinct, in no particular order), and a value of any other dynamic type by what
  \<^verbatim>\<open>json.Marshal\<close> makes of it (\<open>None\<close>: an error).
\<close>

datatype any =
    VNil
  | VBool bool
  | VString string
  | VFloat64 rat
  | VFloat32 rat
  | VInt int
  | VInt64 int
  | VInt32 int
  | VObject "(string \<times> any) list"
  | VArray "any list"
  | VOther "string option"

type_synonym FlagType = string

definition FlagTypeBoolean :: FlagType where "FlagTypeBoolean = ''boolean''"
definition FlagTypeString :: FlagType where "FlagTypeString = ''string''"
definition FlagTypeNumber :: FlagType where "FlagTypeNumber = ''number''"
definition FlagTypeJSON :: FlagType where "FlagTypeJSON = ''json''"

datatype EvaluationReason =
    ReasonCached
  | ReasonFallthrough
  | ReasonTargeted
  | ReasonDefault
  | ReasonDisabled
  | ReasonFlagNotFound
  | ReasonError
  | ReasonStaleCache
  | ReasonBootstrap

record FlagState =
  Key :: string
  Value :: any
  Enabled :: bool
  Version :: int
  FlagType :: FlagType
  LastModified :: string

section \<open>Cache (internal/core)\<close>

text \<open>
  \<^verbatim>\<open>entries\<close> is a Go map. \<^verbatim>\<open>len(c.entries)\<close> is the number of keys. A \<^verbatim>\<open>range\<close> over the map
  visits every key once, in an order the runtime chooses; wherever the source ranges over
  the map, the model takes that order as the argument \<open>order\<close>, a list of the keys.
\<close>

record CacheEntry =
  Flag :: FlagState
  FetchedAt :: Time
  ExpiresAt :: Time

record Cache =
  entries :: "string \<rightharpoonup> CacheEntry"
  ttl :: Duration
  maxSize :: int

record CacheConfig =
  TTL :: Duration
  MaxSize :: int

definition NewCache :: "CacheConfig \<Rightarrow> Cache" where
  "NewCache config = \<lparr>entries = Map.empty, ttl = TTL config, maxSize = MaxSize config\<rparr>"

definition Size :: "Cache \<Rightarrow> int" where
  "Size c = int (card (dom (entries c)))"

text \<open>\<^verbatim>\<open>time.Now().After(entry.ExpiresAt)\<close> is \<open>now > ExpiresAt entry\<close>.\<close>

definition Get :: "Time \<Rightarrow> Cache \<Rightarrow> string \<Rightarrow> FlagState option" where
  "Get now c key =
     (case entries c key of
        None \<Rightarrow> None
      | Some entry \<Rightarrow> if now > ExpiresAt entry then None else Some (Flag entry))"

definition GetStale :: "Cache \<Rightarrow> string \<Rightarrow> FlagState option" where
  "GetStale c key = (case entries c key of None \<Rightarrow> None | Some entry \<Rightarrow> Some (Flag entry))"

definition IsStale :: "Time \<Rightarrow> Cache \<Rightarrow> string \<Rightarrow> bool" where
  "IsStale now c key =
     (case entries c key of None \<Rightarrow> False | Some entry \<Rightarrow> now > ExpiresAt entry)"

text \<open>
  \<^verbatim>\<open>GetAllValid\<close> and \<^verbatim>\<open>Stats\<close> test \<^verbatim>\<open>now.Before(entry.ExpiresAt)\<close>, that is
  \<open>now < ExpiresAt entry\<close>.
\<close>

definition GetAllValid :: "string list \<Rightarrow> Time \<Rightarrow> Cache \<Rightarrow> FlagState list" where
  "GetAllValid order now c =
     List.map_filter
       (\<lambda>key. case entries c key of
                 None \<Rightarrow> None
               | Some entry \<Rightarrow> if now < ExpiresAt entry then Some (Flag entry) else None)
       order"

record CacheStats =
  stat_size :: int
  valid_count :: int
  stale_count :: int
  max_size :: int

fun countStats :: "(string \<rightharpoonup> CacheEntry) \<Rightarrow> Time \<Rightarrow> string list \<Rightarrow> int \<times> int \<Rightarrow> int \<times> int" where
  "countStats m now [] acc = acc"
| "countStats m now (key # keys) (validCount, staleCount) =
     (case m key of
        None \<Rightarrow> countStats m now keys (validCount, staleCount)
      | Some entry \<Rightarrow>
          if now < ExpiresAt entry
          then countStats m now keys (validCount + 1, staleCount)
          else countStats m now keys (validCount, staleCount + 1))"

definition Stats :: "string list \<Rightarrow> Time \<Rightarrow> Cache \<Rightarrow> CacheStats" where
  "Stats order now c =
     (let (validCount, staleCount) = countStats (entries c) now order (0, 0)
      in \<lparr>stat_size = Size c, valid_count = validCount, stale_count = staleCount,
          max_size = maxSize c\<rparr>)"

text \<open>
  The loop of \<^verbatim>\<open>evictOldest\<close>, with its three variables \<^verbatim>\<open>oldestKey\<close>, \<^verbatim>\<open>oldestTime\<close>,
  \<^verbatim>\<open>first\<close>. A key of \<open>order\<close> that the map does not hold cannot occur in a \<^verbatim>\<open>range\<close>; the
  model skips it.
\<close>

fun scanOldest ::
  "(string \<rightharpoonup> CacheEntry) \<Rightarrow> string list \<Rightarrow> string \<times> Time \<times> bool \<Rightarrow> string \<times> Time \<times> bool" where
  "scanOldest m [] acc = acc"
| "scanOldest m (key # keys) (oldestKey, oldestTime, first) =
     (case m key of
        None \<Rightarrow> scanOldest m keys (oldestKey, oldestTime, first)
      | Some entry \<Rightarrow>
          if first \<or> FetchedAt entry < oldestTime
          then scanOldest m keys (key, FetchedAt entry, False)
          else scanOldest m keys (oldestKey, oldestTime, first))"

definition oldestKeyOf :: "string list \<Rightarrow> (string \<rightharpoonup> CacheEntry) \<Rightarrow> string" where
  "oldestKeyOf order m = fst (scanOldest m order ('''', 0, True))"

definition evictOldest :: "string list \<Rightarrow> Cache \<Rightarrow> Cache" where
  "evictOldest order c =
     (let oldestKey = oldestKeyOf order (entries c)
      in if oldestKey \<noteq> '''' then c\<lparr>entries := (entries c)(oldestKey := None)\<rparr> else c)"

text \<open>
  \<^verbatim>\<open>Set(key, flag, ttl...)\<close>: the variadic \<^verbatim>\<open>ttl\<close> is a list, of which the first element
  counts. \<open>order\<close> is the \<^verbatim>\<open>range\<close> order \<^verbatim>\<open>evictOldest\<close> would see.
\<close>

definition newEntry :: "Cache \<Rightarrow> Time \<Rightarrow> FlagState \<Rightarrow> Duration list \<Rightarrow> CacheEntry" where
  "newEntry c now flag ttls =
     (let cacheTTL = (case ttls of [] \<Rightarrow> ttl c | t # _ \<Rightarrow> t)
      in \<lparr>Flag = flag, FetchedAt = now, ExpiresAt = now + cacheTTL\<rparr>)"

definition Set_entry ::
  "string list \<Rightarrow> Time \<Rightarrow> string \<Rightarrow> FlagState \<Rightarrow> Duration list \<Rightarrow> Cache \<Rightarrow> Cache" where
  "Set_entry order now key flag ttls c =
     (let c1 = (if Size c \<ge> maxSize c
                then (if entries c key = None then evictOldest order c else c)
                else c)
      in c1\<lparr>entries := (entries c1)(key \<mapsto> newEntry c now flag ttls)\<rparr>)"

definition Delete :: "string \<Rightarrow> Cache \<Rightarrow> bool \<times> Cache" where
  "Delete key c =
     (case entries c key of
        Some _ \<Rightarrow> (True, c\<lparr>entries := (entries c)(key := None)\<rparr>)
      | None \<Rightarrow> (False, c))"

definition Clear :: "Cache \<Rightarrow> Cache" where
  "Clear c = c\<lparr>entries := Map.empty\<rparr>"

definition Has :: "Cache \<Rightarrow> string \<Rightarrow> bool" where
  "Has c key = (entries c key \<noteq> None)"

text \<open>
  The mutating operations of the cache, each \<^verbatim>\<open>Set\<close> with the clock reading and the
  \<^verbatim>\<open>range\<close> order of that call. \<^verbatim>\<open>SetMany\<close> is a sequence of \<^verbatim>\<open>Set\<close> calls.
\<close>

datatype cache_op =
    OpSet "string list" Time string FlagState "Duration list"
  | OpDelete string
  | OpClear

fun apply_op :: "cache_op \<Rightarrow> Cache \<Rightarrow> Cache" where
  "apply_op (OpSet order now key flag ttls) c = Set_entry order now key flag ttls c"
| "apply_op (OpDelete key) c = snd (Delete key c)"
| "apply_op OpClear c = Clear c"

definition run_ops :: "cache_op list \<Rightarrow> Cache \<Rightarrow> Cache" where
  "run_ops ops c = fold apply_op ops c"

text \<open>
  A \<^verbatim>\<open>range\<close> order is a duplicate-free list of exactly the map's keys. \<open>ops_ranged\<close> says
  that every \<^verbatim>\<open>Set\<close> of a run is given a \<^verbatim>\<open>range\<close> order of the map it meets, and
  \<open>ops_keyed\<close> that no \<^verbatim>\<open>Set\<close> of the run uses the empty key.
\<close>

definition is_range :: "string list \<Rightarrow> (string \<rightharpoonup> 'v) \<Rightarrow> bool" where
  "is_range order m \<longleftrightarrow> distinct order \<and> set order = dom m"

fun ops_ranged :: "cache_op list \<Rightarrow> Cache \<Rightarrow> bool" where
  "ops_ranged [] c = True"
| "ops_ranged (OpSet order now key flag ttls # ops) c =
     (is_range order (entries c)
      \<and> ops_ranged ops (apply_op (OpSet order now key flag ttls) c))"
| "ops_ranged (op # ops) c = ops_ranged ops (apply_op op c)"

fun op_keyed :: "cache_op \<Rightarrow> bool" where
  "op_keyed (OpSet order now key flag ttls) = (key \<noteq> '''')"
| "op_keyed _ = True"

definition ops_keyed :: "cache_op list \<Rightarrow> bool" where
  "ops_keyed ops = list_all op_keyed ops"

text \<open>
  The invariant of the cache under operations with non-empty keys: finitely many keys,
  none of them empty, and at most \<^verbatim>\<open>maxSize\<close> of them.
\<close>

definition cache_inv :: "Cache \<Rightarrow> bool" where
  "cache_inv c \<longleftrightarrow>
     finite (dom (entries c)) \<and> '''' \<notin> dom (entries c) \<and> Size c \<le> maxSize c"

text \<open>Sample flags and caches for the concrete runs below.\<close>

definition flag_of :: "string \<Rightarrow> any \<Rightarrow> FlagType \<Rightarrow> FlagState" where
  "flag_of k v t =
     \<lparr>Key = k, Value = v, Enabled = True, Version = 1, FlagType = t, LastModified = ''''\<rparr>"

definition zero_size_config :: CacheConfig where
  "zero_size_config = \<lparr>TTL = 5 * Minute, MaxSize = 0\<rparr>"

definition two_slot_config :: CacheConfig where
  "two_slot_config = \<lparr>TTL = 5 * Minute, MaxSize = 2\<rparr>"

definition set_a :: cache_op where
  "set_a = OpSet [] 1 ''a'' (flag_of ''a'' (VBool True) FlagTypeBoolean) []"

definition set_b :: cache_op where
  "set_b = OpSet [''a''] 2 ''b'' (flag_of ''b'' (VBool False) FlagTypeBoolean) []"

definition set_c :: cache_op where
  "set_c = OpSet [''b'', ''a''] 3 ''c'' (flag_of ''c'' (VString ''x'') FlagTypeString) []"

definition two_slot_full :: Cache where
  "two_slot_full = run_ops [set_a, set_b] (NewCache two_slot_config)"

text \<open>A cache that holds one string flag \<open>k\<close>, written at time 0 with a TTL of 5 ns.\<close>

definition short_lived :: Cache where
  "short_lived =
     Set_entry [] 0 ''k'' (flag_of ''k'' (VString ''on'') FlagTypeString) [5]
       (NewCache two_slot_config)"

section \<open>Client evaluation (client)\<close>

text \<open>
  \<^verbatim>\<open>evaluate\<close> reads the cache and the bootstrap map of the options and writes nothing; the
  evaluation jitter is a sleep before the lookup. The context argument is accepted and
  not used. \<open>now\<close> is the clock reading of the cache lookup and \<open>stamp\<close> the one stored
  in the result.
\<close>

typedecl EvaluationContext

record Options =
  Bootstrap :: "string \<rightharpoonup> any"

record Client =
  options :: Options
  cache :: Cache

record EvaluationResult =
  FlagKey :: string
  r_Value :: any
  r_Enabled :: bool
  Reason :: EvaluationReason
  r_Version :: int
  Timestamp :: Time

definition createDefaultResult ::
  "string \<Rightarrow> any \<Rightarrow> EvaluationReason \<Rightarrow> Time \<Rightarrow> EvaluationResult" where
  "createDefaultResult key defaultValue reason stamp =
     \<lparr>FlagKey = key, r_Value = defaultValue, r_Enabled = False, Reason = reason,
      r_Version = 0, Timestamp = stamp\<rparr>"

definition evaluate ::
  "Time \<Rightarrow> Time \<Rightarrow> Client \<Rightarrow> string \<Rightarrow> any \<Rightarrow> EvaluationContext option \<Rightarrow> FlagType
   \<Rightarrow> EvaluationResult" where
  "evaluate now stamp c key defaultValue ctx expectedType =
     (if key = '''' then createDefaultResult key defaultValue ReasonDefault stamp
      else
        case Get now (cache c) key of
          Some cached \<Rightarrow>
            if expectedType \<noteq> '''' \<and> FlagType cached \<noteq> expectedType
            then createDefaultResult key defaultValue ReasonError stamp
            else \<lparr>FlagKey = key, r_Value = Value cached, r_Enabled = Enabled cached,
                  Reason = ReasonCached, r_Version = Version cached, Timestamp = stamp\<rparr>
        | None \<Rightarrow>
            (case GetStale (cache c) key of
               Some stale \<Rightarrow>
                 \<lparr>FlagKey = key, r_Value = Value stale, r_Enabled = Enabled stale,
                  Reason = ReasonStaleCache, r_Version = Version stale, Timestamp = stamp\<rparr>
             | None \<Rightarrow>
                 (case Bootstrap (options c) key of
                    Some v \<Rightarrow> createDefaultResult key v ReasonBootstrap stamp
                  | None \<Rightarrow> createDefaultResult key defaultValue ReasonFlagNotFound stamp)))"

definition BoolValue :: "EvaluationResult \<Rightarrow> bool" where
  "BoolValue r = (case r_Value r of VBool v \<Rightarrow> v | _ \<Rightarrow> False)"

definition StringValue :: "EvaluationResult \<Rightarrow> string" where
  "StringValue r = (case r_Value r of VString v \<Rightarrow> v | _ \<Rightarrow> '''')"

definition Float64Value :: "EvaluationResult \<Rightarrow> rat" where
  "Float64Value r =
     (case r_Value r of
        VFloat64 v \<Rightarrow> v
      | VFloat32 v \<Rightarrow> v
      | VInt v \<Rightarrow> of_int v
      | VInt64 v \<Rightarrow> of_int v
      | _ \<Rightarrow> 0)"

definition GetBooleanValue ::
  "Time \<Rightarrow> Time \<Rightarrow> Client \<Rightarrow> string \<Rightarrow> bool \<Rightarrow> EvaluationContext option \<Rightarrow> bool" where
  "GetBooleanValue now stamp c key defaultValue ctx =
     BoolValue (evaluate now stamp c key (VBool defaultValue) ctx FlagTypeBoolean)"

definition GetStringValue ::
  "Time \<Rightarrow> Time \<Rightarrow> Client \<Rightarrow> string \<Rightarrow> string \<Rightarrow> EvaluationContext option \<Rightarrow> string" where
  "GetStringValue now stamp c key defaultValue ctx =
     StringValue (evaluate now stamp c key (VString defaultValue) ctx FlagTypeString)"

definition GetNumberValue ::
  "Time \<Rightarrow> Time \<Rightarrow> Client \<Rightarrow> string \<Rightarrow> rat \<Rightarrow> EvaluationContext option \<Rightarrow> rat" where
  "GetNumberValue now stamp c key defaultValue ctx =
     Float64Value (evaluate now stamp c key (VFloat64 defaultValue) ctx FlagTypeNumber)"

text \<open>A client whose cache holds the string flag \<open>k\<close> expiring at time 5, no bootstrap.\<close>

definition stale_client :: Client where
  "stale_client = \<lparr>options = \<lparr>Bootstrap = Map.empty\<rparr>, cache = short_lived\<rparr>"

section \<open>Circuit breaker (package internal)\<close>

datatype CircuitState = CircuitClosed | CircuitOpen | CircuitHalfOpen

record CircuitBreakerConfig =
  FailureThreshold :: int
  SuccessThreshold :: int
  ResetTimeout :: Duration
  HalfOpenMaxAllowed :: int

record CircuitBreaker =
  cb_config :: CircuitBreakerConfig
  state :: CircuitState
  failures :: int
  successes :: int
  lastFailureTime :: Time
  halfOpenAllowed :: int
  halfOpenInProgress :: int

definition DefaultCircuitBreakerConfig :: CircuitBreakerConfig where
  "DefaultCircuitBreakerConfig =
     \<lparr>FailureThreshold = 5, SuccessThreshold = 2, ResetTimeout = 30 * Second,
      HalfOpenMaxAllowed = 1\<rparr>"

text \<open>
  \<^verbatim>\<open>NewCircuitBreaker\<close> leaves \<^verbatim>\<open>lastFailureTime\<close> at the zero \<^verbatim>\<open>time.Time\<close>; it is read
  only in state \<^verbatim>\<open>OPEN\<close>, which is entered by \<^verbatim>\<open>RecordFailure\<close> alone, after it has set
  the field.
\<close>

definition NewCircuitBreaker :: "CircuitBreakerConfig \<Rightarrow> CircuitBreaker" where
  "NewCircuitBreaker cfg =
     \<lparr>cb_config = cfg, state = CircuitClosed, failures = 0, successes = 0,
      lastFailureTime = 0, halfOpenAllowed = 0, halfOpenInProgress = 0\<rparr>"

definition transitionTo :: "CircuitState \<Rightarrow> CircuitBreaker \<Rightarrow> CircuitBreaker" where
  "transitionTo newState cb = cb\<lparr>state := newState, failures := 0, successes := 0\<rparr>"

text \<open>The body of \<^verbatim>\<open>case CircuitHalfOpen\<close>, which \<^verbatim>\<open>case CircuitOpen\<close> falls through to.\<close>

definition admitHalfOpen :: "CircuitBreaker \<Rightarrow> bool \<times> CircuitBreaker" where
  "admitHalfOpen cb =
     (if halfOpenInProgress cb < halfOpenAllowed cb
      then (True, cb\<lparr>halfOpenInProgress := halfOpenInProgress cb + 1\<rparr>)
      else (False, cb))"

definition Allow :: "Time \<Rightarrow> CircuitBreaker \<Rightarrow> bool \<times> CircuitBreaker" where
  "Allow now cb =
     (case state cb of
        CircuitClosed \<Rightarrow> (True, cb)
      | CircuitOpen \<Rightarrow>
          if now - lastFailureTime cb \<ge> ResetTimeout (cb_config cb)
          then admitHalfOpen
                 ((transitionTo CircuitHalfOpen cb)
                    \<lparr>halfOpenAllowed := HalfOpenMaxAllowed (cb_config cb),
                     halfOpenInProgress := 0\<rparr>)
          else (False, cb)
      | CircuitHalfOpen \<Rightarrow> admitHalfOpen cb)"

definition RecordSuccess :: "CircuitBreaker \<Rightarrow> CircuitBreaker" where
  "RecordSuccess cb =
     (case state cb of
        CircuitHalfOpen \<Rightarrow>
          (let cb' = cb\<lparr>successes := successes cb + 1,
                        halfOpenInProgress := halfOpenInProgress cb - 1\<rparr>
           in if successes cb' \<ge> SuccessThreshold (cb_config cb')
              then transitionTo CircuitClosed cb' else cb')
      | CircuitClosed \<Rightarrow> cb\<lparr>failures := 0\<rparr>
      | CircuitOpen \<Rightarrow> cb)"

definition RecordFailure :: "Time \<Rightarrow> CircuitBreaker \<Rightarrow> CircuitBreaker" where
  "RecordFailure now cb =
     (let cb0 = cb\<lparr>lastFailureTime := now\<rparr>
      in case state cb0 of
           CircuitClosed \<Rightarrow>
             (let cb' = cb0\<lparr>failures := failures cb0 + 1\<rparr>
              in if failures cb' \<ge> FailureThreshold (cb_config cb')
                 then transitionTo CircuitOpen cb' else cb')
         | CircuitHalfOpen \<Rightarrow>
             transitionTo CircuitOpen (cb0\<lparr>halfOpenInProgress := halfOpenInProgress cb0 - 1\<rparr>)
         | CircuitOpen \<Rightarrow> cb0)"

definition Reset :: "CircuitBreaker \<Rightarrow> CircuitBreaker" where
  "Reset cb =
     cb\<lparr>state := CircuitClosed, failures := 0, successes := 0, halfOpenAllowed := 0,
        halfOpenInProgress := 0\<rparr>"

text \<open>
  The calls a user of the breaker can make, and a run of them on a breaker. \<^verbatim>\<open>Allow\<close> and
  \<^verbatim>\<open>RecordFailure\<close> read the clock, whose value is part of the call.
\<close>

datatype breaker_call = CallAllow Time | CallSuccess | CallFailure Time | CallReset

fun breaker_step :: "breaker_call \<Rightarrow> CircuitBreaker \<Rightarrow> CircuitBreaker" where
  "breaker_step (CallAllow now) cb = snd (Allow now cb)"
| "breaker_step CallSuccess cb = RecordSuccess cb"
| "breaker_step (CallFailure now) cb = RecordFailure now cb"
| "breaker_step CallReset cb = Reset cb"

definition breaker_run :: "breaker_call list \<Rightarrow> CircuitBreaker \<Rightarrow> CircuitBreaker" where
  "breaker_run calls cb = fold breaker_step calls cb"

text \<open>
  The configuration of the repository's test \<^verbatim>\<open>TestCircuitBreakerHalfOpenToClosedOnSuccess\<close>:
  the struct literal leaves \<^verbatim>\<open>HalfOpenMaxAllowed\<close> at its zero value.
\<close>

definition test_breaker_config :: CircuitBreakerConfig where
  "test_breaker_config =
     \<lparr>FailureThreshold = 2, SuccessThreshold = 1, ResetTimeout = 50 * Millisecond,
      HalfOpenMaxAllowed = 0\<rparr>"

text \<open>
  The configuration of \<^verbatim>\<open>TestCircuitBreakerHalfOpenState\<close>, which sets every field used
  on the way from \<^verbatim>\<open>OPEN\<close> to \<^verbatim>\<open>HALF_OPEN\<close>.
\<close>

definition probe_breaker_config :: CircuitBreakerConfig where
  "probe_breaker_config =
     \<lparr>FailureThreshold = 2, SuccessThreshold = 1, ResetTimeout = 50 * Millisecond,
      HalfOpenMaxAllowed = 1\<rparr>"

text \<open>A run of that breaker: two failures at 0 and 10 ms, then a probe at 100 ms.\<close>

definition probe_closed :: CircuitBreaker where
  "probe_closed = NewCircuitBreaker probe_breaker_config"

definition probe_open :: CircuitBreaker where
  "probe_open = fold RecordFailure [0, 10 * Millisecond] probe_closed"

definition probe_half_open :: CircuitBreaker where
  "probe_half_open = snd (Allow (100 * Millisecond) probe_open)"


text \<open>
  What every call keeps true of a breaker: in \<^verbatim>\<open>HALF_OPEN\<close> the field \<^verbatim>\<open>halfOpenAllowed\<close> holds
  the configured cap and the calls in progress do not exceed it.
\<close>

definition half_open_inv :: "CircuitBreaker \<Rightarrow> bool" where
  "half_open_inv cb \<longleftrightarrow>
     (state cb = CircuitHalfOpen
      \<longrightarrow> halfOpenAllowed cb = HalfOpenMaxAllowed (cb_config cb)
          \<and> halfOpenInProgress cb \<le> max 0 (HalfOpenMaxAllowed (cb_config cb)))"

text \<open>The run of the sample breaker as a list of calls.\<close>

definition probe_calls :: "breaker_call list" where
  "probe_calls = [CallFailure 0, CallFailure (10 * Millisecond), CallAllow (100 * Millisecond)]"
section \<open>Bootstrap verification (security)\<close>

text \<open>
  What the code takes from Go's standard library is a parameter of the model: the
  hex-encoded HMAC-SHA256 of a message under a key (\<^verbatim>\<open>GenerateHMACSHA256\<close> is
  \<^verbatim>\<open>crypto/hmac\<close> over \<^verbatim>\<open>crypto/sha256\<close>, hex-encoded), \<^verbatim>\<open>json.Marshal\<close> of a string, and
  \<^verbatim>\<open>strconv.FormatFloat(v, 'f', -1, bits)\<close>.
\<close>

record go_std =
  hmac_sha256_hex :: "string \<Rightarrow> string \<Rightarrow> string"
  json_string :: "string \<Rightarrow> string"
  format_float64 :: "rat \<Rightarrow> string"
  format_float32 :: "rat \<Rightarrow> string"

definition GenerateHMACSHA256 :: "go_std \<Rightarrow> string \<Rightarrow> string \<Rightarrow> string" where
  "GenerateHMACSHA256 std message key = hmac_sha256_hex std message key"

text \<open>
  The test \<^verbatim>\<open>val == float64(int64(val))\<close>: the float is a whole number that fits an
  \<^verbatim>\<open>int64\<close>.
\<close>

definition is_int64_valued :: "rat \<Rightarrow> bool" where
  "is_int64_valued v \<longleftrightarrow> of_int \<lfloor>v\<rfloor> = v \<and> - (2 ^ 63) \<le> v \<and> v < 2 ^ 63"

text \<open>The first error of a list of results, or all the values.\<close>

fun sequence_results :: "('e + 'a) list \<Rightarrow> 'e + 'a list" where
  "sequence_results [] = Inr []"
| "sequence_results (Inl e # rs) = Inl e"
| "sequence_results (Inr x # rs) =
     (case sequence_results rs of Inl e \<Rightarrow> Inl e | Inr xs \<Rightarrow> Inr (x # xs))"

text \<open>
  \<^verbatim>\<open>canonicalizeValue\<close>, with \<^verbatim>\<open>canonicalizeArray\<close> and \<^verbatim>\<open>canonicalizeMap\<close> inlined. The map
  case visits the keys in the order of \<^verbatim>\<open>sort.Strings\<close> and stops at the first error in
  that order.
\<close>

primrec canonicalizeValue :: "go_std \<Rightarrow> any \<Rightarrow> go_error + string" where
  "canonicalizeValue std VNil = Inr ''null''"
| "canonicalizeValue std (VBool val) = Inr (if val then ''true'' else ''false'')"
| "canonicalizeValue std (VFloat64 val) =
     Inr (if is_int64_valued val then FormatInt \<lfloor>val\<rfloor> else format_float64 std val)"
| "canonicalizeValue std (VFloat32 val) =
     Inr (if is_int64_valued val then FormatInt \<lfloor>val\<rfloor> else format_float32 std val)"
| "canonicalizeValue std (VInt val) = Inr (FormatInt val)"
| "canonicalizeValue std (VInt64 val) = Inr (FormatInt val)"
| "canonicalizeValue std (VInt32 val) = Inr (FormatInt val)"
| "canonicalizeValue std (VString val) = Inr (json_string std val)"
| "canonicalizeValue std (VArray arr) =
     (if arr = [] then Inr ''[]''
      else case sequence_results (map (canonicalizeValue std) arr) of
             Inl err \<Rightarrow> Inl err
           | Inr parts \<Rightarrow> Inr (''['' @ join '','' parts @ '']''))"
| "canonicalizeValue std (VObject m) =
     (if m = [] then Inr ''{}''
      else case sequence_results
                  (map (\<lambda>(k, r). case r of
                                    Inl err \<Rightarrow> Inl err
                                  | Inr valueCanonical \<Rightarrow>
                                      Inr (json_string std k @ '':'' @ valueCanonical))
                     (sort_key fst (map (map_prod id (canonicalizeValue std)) m))) of
             Inl err \<Rightarrow> Inl err
           | Inr parts \<Rightarrow> Inr (''{'' @ join '','' parts @ ''}''))"
| "canonicalizeValue std (VOther marshalled) =
     (case marshalled of
        None \<Rightarrow> Inl (OtherError ''cannot canonicalize value'')
      | Some bytes \<Rightarrow> Inr bytes)"

definition CanonicalizeObject :: "go_std \<Rightarrow> (string \<times> any) list \<Rightarrow> go_error + string" where
  "CanonicalizeObject std obj = canonicalizeValue std (VObject obj)"

record BootstrapConfig =
  Flags :: "(string \<times> any) list"
  Signature :: string
  b_Timestamp :: int

record BootstrapVerificationConfig =
  bv_Enabled :: bool
  MaxAge :: Duration
  OnFailure :: string

text \<open>\<^verbatim>\<open>Duration.Milliseconds()\<close>: the integer division of Go, which truncates toward zero.\<close>

definition Milliseconds :: "Duration \<Rightarrow> int" where
  "Milliseconds d = (if 0 \<le> d then d div 1000000 else - ((- d) div 1000000))"

text \<open>
  \<open>now\<close> is \<^verbatim>\<open>time.Now().UnixMilli()\<close>. \<^verbatim>\<open>hmac.Equal\<close> compares two byte strings for
  equality; that it takes the same time whatever the strings is not part of the model.
\<close>

definition VerifyBootstrapSignature ::
  "go_std \<Rightarrow> int \<Rightarrow> BootstrapConfig \<Rightarrow> string \<Rightarrow> BootstrapVerificationConfig
   \<Rightarrow> bool \<times> go_error option" where
  "VerifyBootstrapSignature std now bootstrap apiKey config =
     (if \<not> bv_Enabled config then (True, None)
      else if Signature bootstrap = '''' then (True, None)
      else
        let age = now - b_Timestamp bootstrap;
            maxAgeMs = Milliseconds (MaxAge config);
            checked = (MaxAge config > 0 \<and> b_Timestamp bootstrap > 0)
        in if checked \<and> age > maxAgeMs
           then (False, Some (errors_NewError ErrSecuritySignatureInvalid
                   (''bootstrap data is expired: age '' @ FormatInt age
                    @ ''ms exceeds max age '' @ FormatInt maxAgeMs @ ''ms'')))
           else if checked \<and> age < - 300000
           then (False, Some (errors_NewError ErrSecuritySignatureInvalid
                   ''bootstrap timestamp is in the future''))
           else
             case CanonicalizeObject std (Flags bootstrap) of
               Inl err \<Rightarrow>
                 (False, Some (errors_NewErrorWithCause ErrSecuritySignatureInvalid
                    ''failed to canonicalize bootstrap flags'' (Some err)))
             | Inr canonical \<Rightarrow>
                 let message = FormatInt (b_Timestamp bootstrap) @ ''.'' @ canonical;
                     expectedSignature = GenerateHMACSHA256 std message apiKey
                 in if Signature bootstrap \<noteq> expectedSignature
                    then (False, Some (errors_NewError ErrSecuritySignatureInvalid
                            ''bootstrap signature verification failed: signature mismatch''))
                    else (True, None))"

text \<open>
  \<^verbatim>\<open>CreateBootstrapSignature\<close>, the signer the verifier is the counterpart of; \<open>now\<close> is
  its \<^verbatim>\<open>time.Now().UnixMilli()\<close>.
\<close>

definition CreateBootstrapSignature ::
  "go_std \<Rightarrow> int \<Rightarrow> (string \<times> any) list \<Rightarrow> string \<Rightarrow> go_error + BootstrapConfig" where
  "CreateBootstrapSignature std now flags apiKey =
     (case CanonicalizeObject std flags of
        Inl err \<Rightarrow> Inl err
      | Inr canonical \<Rightarrow>
          Inr \<lparr>Flags = flags,
               Signature = GenerateHMACSHA256 std (FormatInt now @ ''.'' @ canonical) apiKey,
               b_Timestamp = now\<rparr>)"

text \<open>
  Stand-ins for the standard library in concrete runs: a keyed tag that is not a real
  MAC, quoting without escapes, and a fixed rendering of fractions. The theorems hold for
  every \<open>go_std\<close>; these only serve to run the code on an example.
\<close>

definition toy_std :: go_std where
  "toy_std =
     \<lparr>hmac_sha256_hex = (\<lambda>message key. ''mac('' @ key @ '';'' @ message @ '')''),
      json_string = (\<lambda>s. [CHR 0x22] @ s @ [CHR 0x22]),
      format_float64 = (\<lambda>v. ''frac''),
      format_float32 = (\<lambda>v. ''frac'')\<rparr>"

definition sample_flags :: "(string \<times> any) list" where
  "sample_flags = [(''b'', VString ''x''), (''a'', VInt 1)]"

definition sample_key :: string where
  "sample_key = ''sdk_test_key_1234567890''"

definition day_config :: BootstrapVerificationConfig where
  "day_config = \<lparr>bv_Enabled = True, MaxAge = 24 * 60 * Minute, OnFailure = ''error''\<rparr>"

definition signed_sample :: BootstrapConfig where
  "signed_sample =
     \<lparr>Flags = sample_flags,
      Signature = GenerateHMACSHA256 toy_std
        (FormatInt 1700000000000 @ ''.'' @ ''{'' @ [CHR 0x22] @ ''a'' @ [CHR 0x22] @ '':1,''
           @ [CHR 0x22] @ ''b'' @ [CHR 0x22] @ '':'' @ [CHR 0x22] @ ''x'' @ [CHR 0x22] @ ''}'')
        sample_key,
      b_Timestamp = 1700000000000\<rparr>"

definition unsigned_sample :: BootstrapConfig where
  "unsigned_sample = \<lparr>Flags = sample_flags, Signature = '''', b_Timestamp = 0\<rparr>"

definition tampered_sample :: BootstrapConfig where
  "tampered_sample = signed_sample\<lparr>Signature := ''forged''\<rparr>"

definition disabled_config :: BootstrapVerificationConfig where
  "disabled_config = \<lparr>bv_Enabled = False, MaxAge = 24 * 60 * Minute, OnFailure = ''warn''\<rparr>"

section \<open>Encrypted cache storage (internal/storage)\<close>

text \<open>
  The cryptography and the codecs come from Go's standard library and are parameters of
  the model: AES-GCM sealing and opening under a key and a nonce of the standard length,
  base64, and the JSON decoding of a string into an \<^verbatim>\<open>EncryptedData\<close>. A call that returns
  an error is \<open>Inl\<close> of the text of \<^verbatim>\<open>err.Error()\<close>. The result of
  \<^verbatim>\<open>io.ReadFull(rand.Reader, iv)\<close> is an argument of \<^verbatim>\<open>Encrypt\<close>: the text of the error, or the
  bytes read into the buffer \<^verbatim>\<open>iv\<close>, which \<^verbatim>\<open>make\<close> has created with \<^verbatim>\<open>ivLength\<close> zero bytes.
\<close>

record EncryptedData =
  IV :: string
  Data :: string
  ed_Version :: int

record crypto_env =
  gcm_seal :: "string \<Rightarrow> string \<Rightarrow> string \<Rightarrow> string"
  gcm_open :: "string \<Rightarrow> string \<Rightarrow> string \<Rightarrow> string + string"
  b64_encode :: "string \<Rightarrow> string"
  b64_decode :: "string \<Rightarrow> string + string"
  unmarshal_EncryptedData :: "string \<Rightarrow> string + EncryptedData"

definition EncryptionVersion :: int where
  "EncryptionVersion = 1"

definition ivLength :: nat where
  "ivLength = 12"

text \<open>
  \<^verbatim>\<open>json.Marshal\<close> of an \<^verbatim>\<open>EncryptedData\<close> whose strings are base64 text, which needs no
  escapes: the fields in the order of the struct.
\<close>

definition json_quoted :: "string \<Rightarrow> string" where
  "json_quoted s = [CHR 0x22] @ s @ [CHR 0x22]"

definition marshal_EncryptedData :: "EncryptedData \<Rightarrow> string" where
  "marshal_EncryptedData e =
     ''{'' @ json_quoted ''iv'' @ '':'' @ json_quoted (IV e) @ '',''
     @ json_quoted ''data'' @ '':'' @ json_quoted (Data e) @ '',''
     @ json_quoted ''version'' @ '':'' @ FormatInt (ed_Version e) @ ''}''"

text \<open>\<^verbatim>\<open>derivedKey\<close> is \<open>None\<close> for a nil slice.\<close>

record EncryptedStorage =
  es_apiKey :: string
  derivedKey :: "string option"

text \<open>
  \<^verbatim>\<open>aes.NewCipher\<close> fails exactly for a key that is not 16, 24 or 32 bytes long, with a
  \<^verbatim>\<open>KeySizeError\<close>; \<^verbatim>\<open>cipher.NewGCM\<close> does not fail on an AES block, and \<^verbatim>\<open>json.Marshal\<close> does
  not fail on this struct.
\<close>

definition aes_key_ok :: "string \<Rightarrow> bool" where
  "aes_key_ok key \<longleftrightarrow> length key = 16 \<or> length key = 24 \<or> length key = 32"

definition aes_NewCipher :: "string \<Rightarrow> string + string" where
  "aes_NewCipher key =
     (if aes_key_ok key then Inr key
      else Inl (''crypto/aes: invalid key size '' @ FormatInt (int (length key))))"

text \<open>
  \<^verbatim>\<open>Seal\<close> and \<^verbatim>\<open>Open\<close> of the GCM made by \<^verbatim>\<open>cipher.NewGCM\<close>: both panic when the nonce is not
  12 bytes long, and \<^verbatim>\<open>Seal\<close> panics on a plaintext of more than \<open>(2^32 - 2) * 16\<close> bytes.
\<close>

definition gcm_Seal :: "crypto_env \<Rightarrow> string \<Rightarrow> string \<Rightarrow> string \<Rightarrow> string outcome" where
  "gcm_Seal env key nonce plaintext =
     (if length nonce \<noteq> 12
      then Panics ''crypto/cipher: incorrect nonce length given to GCM''
      else if length plaintext > (2 ^ 32 - 2) * 16
      then Panics ''crypto/cipher: message too large for GCM''
      else Returns (gcm_seal env key nonce plaintext))"

definition gcm_Open ::
  "crypto_env \<Rightarrow> string \<Rightarrow> string \<Rightarrow> string \<Rightarrow> (string + string) outcome" where
  "gcm_Open env key nonce ciphertext =
     (if length nonce \<noteq> 12
      then Panics ''crypto/cipher: incorrect nonce length given to GCM''
      else Returns (gcm_open env key nonce ciphertext))"

text \<open>The buffer \<^verbatim>\<open>iv\<close> once the bytes read have been written into it.\<close>

definition iv_buffer :: "string \<Rightarrow> string" where
  "iv_buffer bytes = take ivLength (bytes @ replicate ivLength (CHR 0x00))"

definition Encrypt ::
  "crypto_env \<Rightarrow> string + string \<Rightarrow> EncryptedStorage \<Rightarrow> string
   \<Rightarrow> (go_error + string) outcome" where
  "Encrypt env rand_iv s plaintext =
     (case derivedKey s of
        None \<Rightarrow>
          Returns (Inl (SecurityError ErrSecurityEncryptionFailed ''encryption key not derived''))
      | Some key \<Rightarrow>
          case aes_NewCipher key of
            Inl e \<Rightarrow>
              Returns (Inl (SecurityError ErrSecurityEncryptionFailed
                              (''failed to create cipher: '' @ e)))
          | Inr block \<Rightarrow>
              case rand_iv of
                Inl e \<Rightarrow>
                  Returns (Inl (SecurityError ErrSecurityEncryptionFailed
                                  (''failed to generate IV: '' @ e)))
              | Inr bytes \<Rightarrow>
                  let iv = iv_buffer bytes
                  in case gcm_Seal env block iv plaintext of
                       Panics p \<Rightarrow> Panics p
                     | Returns ciphertext \<Rightarrow>
                         let encrypted =
                               \<lparr>IV = b64_encode env iv, Data = b64_encode env ciphertext,
                                ed_Version = EncryptionVersion\<rparr>
                         in Returns (Inr (marshal_EncryptedData encrypted)))"

definition Decrypt ::
  "crypto_env \<Rightarrow> EncryptedStorage \<Rightarrow> string \<Rightarrow> (go_error + string) outcome" where
  "Decrypt env s ciphertext =
     (case derivedKey s of
        None \<Rightarrow>
          Returns (Inl (SecurityError ErrSecurityDecryptionFailed ''encryption key not derived''))
      | Some key \<Rightarrow>
          case unmarshal_EncryptedData env ciphertext of
            Inl e \<Rightarrow>
              Returns (Inl (SecurityError ErrSecurityDecryptionFailed
                              (''failed to parse encrypted data: '' @ e)))
          | Inr encrypted \<Rightarrow>
              if ed_Version encrypted \<noteq> EncryptionVersion
              then Returns (Inl (SecurityError ErrSecurityDecryptionFailed
                                   ''unsupported encryption version''))
              else
                case b64_decode env (IV encrypted) of
                  Inl e \<Rightarrow>
                    Returns (Inl (SecurityError ErrSecurityDecryptionFailed
                                    (''failed to decode IV: '' @ e)))
                | Inr iv \<Rightarrow>
                    case b64_decode env (Data encrypted) of
                      Inl e \<Rightarrow>
                        Returns (Inl (SecurityError ErrSecurityDecryptionFailed
                                        (''failed to decode ciphertext: '' @ e)))
                    | Inr data \<Rightarrow>
                        case aes_NewCipher key of
                          Inl e \<Rightarrow>
                            Returns (Inl (SecurityError ErrSecurityDecryptionFailed
                                            (''failed to create cipher: '' @ e)))
                        | Inr block \<Rightarrow>
                            case gcm_Open env block iv data of
                              Panics p \<Rightarrow> Panics p
                            | Returns (Inl e) \<Rightarrow>
                                Returns (Inl (SecurityError ErrSecurityDecryptionFailed
                                  (''decryption failed (invalid key or corrupted data): '' @ e)))
                            | Returns (Inr plaintext) \<Rightarrow> Returns (Inr plaintext))"

definition IsEncrypted :: "crypto_env \<Rightarrow> string \<Rightarrow> bool" where
  "IsEncrypted env data =
     (case unmarshal_EncryptedData env data of
        Inl e \<Rightarrow> False
      | Inr encrypted \<Rightarrow>
          ed_Version encrypted > 0 \<and> IV encrypted \<noteq> '''' \<and> Data encrypted \<noteq> '''')"

record EncryptedCacheStorage =
  storage :: EncryptedStorage
  ecs_cache :: "string \<rightharpoonup> string"

text \<open>
  \<^verbatim>\<open>Set\<close> returns its error (\<open>None\<close> for nil) and the store; \<^verbatim>\<open>Get\<close> returns the pair
  \<^verbatim>\<open>(string, error)\<close> as a sum, the string when the error is nil. Neither recovers a panic
  of \<^verbatim>\<open>Encrypt\<close> or \<^verbatim>\<open>Decrypt\<close>.
\<close>

definition EncryptedCacheStorage_Set ::
  "crypto_env \<Rightarrow> string + string \<Rightarrow> string \<Rightarrow> string \<Rightarrow> EncryptedCacheStorage
   \<Rightarrow> (go_error option \<times> EncryptedCacheStorage) outcome" where
  "EncryptedCacheStorage_Set env rand_iv key v c =
     (case Encrypt env rand_iv (storage c) v of
        Panics p \<Rightarrow> Panics p
      | Returns (Inl err) \<Rightarrow> Returns (Some err, c\<lparr>ecs_cache := (ecs_cache c)(key \<mapsto> v)\<rparr>)
      | Returns (Inr encrypted) \<Rightarrow>
          Returns (None, c\<lparr>ecs_cache := (ecs_cache c)(key \<mapsto> encrypted)\<rparr>))"

definition EncryptedCacheStorage_Get ::
  "crypto_env \<Rightarrow> string \<Rightarrow> EncryptedCacheStorage \<Rightarrow> (go_error + string) outcome" where
  "EncryptedCacheStorage_Get env key c =
     (case ecs_cache c key of
        None \<Rightarrow> Returns (Inr '''')
      | Some encrypted \<Rightarrow>
          if \<not> IsEncrypted env encrypted then Returns (Inr encrypted)
          else Decrypt env (storage c) encrypted)"

definition EncryptedCacheStorage_Has :: "EncryptedCacheStorage \<Rightarrow> string \<Rightarrow> bool" where
  "EncryptedCacheStorage_Has c key = (ecs_cache c key \<noteq> None)"

text \<open>
  A stand-in environment for concrete runs. Its JSON decoder knows the renderings of two
  envelopes and rejects every other string, and its base64 decoder knows the two strings
  in them; on those strings they agree with \<^verbatim>\<open>json.Unmarshal\<close> and with
  \<^verbatim>\<open>base64.StdEncoding\<close>. The cipher is a placeholder, which the runs below never reach.
\<close>

definition envelope_v2 :: EncryptedData where
  "envelope_v2 = \<lparr>IV = ''YQ=='', Data = ''Yg=='', ed_Version = 2\<rparr>"

definition envelope_v1 :: EncryptedData where
  "envelope_v1 = \<lparr>IV = ''YQ=='', Data = ''Yg=='', ed_Version = 1\<rparr>"

definition toy_crypto :: crypto_env where
  "toy_crypto =
     \<lparr>gcm_seal = (\<lambda>key iv plaintext. plaintext),
      gcm_open = (\<lambda>key iv data. Inl ''cipher: message authentication failed''),
      b64_encode = (\<lambda>s. s),
      b64_decode =
        (\<lambda>s. if s = ''YQ=='' then Inr ''a''
              else if s = ''Yg=='' then Inr ''b''
              else Inl ''illegal base64 data at input byte 0''),
      unmarshal_EncryptedData =
        (\<lambda>s. if s = marshal_EncryptedData envelope_v2 then Inr envelope_v2
              else if s = marshal_EncryptedData envelope_v1 then Inr envelope_v1
              else Inl ''invalid character'')\<rparr>"

text \<open>A store with a 32 byte key and no entries, and a failed read of the random source.\<close>

definition empty_store :: EncryptedCacheStorage where
  "empty_store =
     \<lparr>storage = \<lparr>es_apiKey = ''sdk_test_key_1234567890'',
                  derivedKey = Some (replicate 32 (CHR ''k''))\<rparr>,
      ecs_cache = Map.empty\<rparr>"

definition no_entropy :: "string + string" where
  "no_entropy = Inl ''unexpected EOF''"

definition iv_failure :: go_error where
  "iv_failure =
     SecurityError ErrSecurityEncryptionFailed ''failed to generate IV: unexpected EOF''"

section \<open>Event persistence (persistence): recovery from the write-ahead log\<close>

type_synonym EventStatus = string

definition EventStatusPending :: EventStatus where "EventStatusPending = ''pending''"
definition EventStatusSending :: EventStatus where "EventStatusSending = ''sending''"
definition EventStatusSent :: EventStatus where "EventStatusSent = ''sent''"
definition EventStatusFailed :: EventStatus where "EventStatusFailed = ''failed''"

record PersistedEvent =
  ID :: string
  pe_Type :: string
  pe_Data :: "(string \<times> any) list"
  pe_Context :: "(string \<times> any) list"
  pe_Timestamp :: int
  Status :: EventStatus
  SentAt :: int

text \<open>
  \<^verbatim>\<open>readEventsFromFile\<close> decodes every line with \<^verbatim>\<open>json.Unmarshal\<close>, first into a
  \<^verbatim>\<open>PersistedEvent\<close> and, when that returns an error, into the struct \<^verbatim>\<open>{ID, Status, SentAt}\<close>.
  A scanned line is modelled by the outcome of these two calls: an empty line, a line the
  first call decodes, a line only the second call decodes, and a line neither decodes.
\<close>

datatype wal_line =
    EmptyLine
  | EventLine PersistedEvent
  | UpdateLine string EventStatus int
  | BadLine

text \<open>
  The lines the writers append. \<^verbatim>\<open>flushLocked\<close> writes the event itself. \<^verbatim>\<open>MarkSending\<close>,
  \<^verbatim>\<open>MarkSent\<close> and \<^verbatim>\<open>MarkFailed\<close> write the object \<^verbatim>\<open>{"id", "status"[, "sentAt"]}\<close>;
  \<^verbatim>\<open>json.Unmarshal\<close> accepts an object that lacks fields of the target struct and leaves
  them at their zero values, so such a line is decoded by the first call.
\<close>

definition event_line :: "PersistedEvent \<Rightarrow> wal_line" where
  "event_line e = EventLine e"

definition status_update_line :: "string \<Rightarrow> EventStatus \<Rightarrow> int \<Rightarrow> wal_line" where
  "status_update_line eid status sentAt =
     EventLine \<lparr>ID = eid, pe_Type = '''', pe_Data = [], pe_Context = [], pe_Timestamp = 0,
                Status = status, SentAt = sentAt\<rparr>"

text \<open>One iteration of the scanner loop on the event map.\<close>

definition readLine ::
  "wal_line \<Rightarrow> (string \<rightharpoonup> PersistedEvent) \<Rightarrow> (string \<rightharpoonup> PersistedEvent)" where
  "readLine line eventMap =
     (case line of
        EmptyLine \<Rightarrow> eventMap
      | BadLine \<Rightarrow> eventMap
      | UpdateLine eid status sentAt \<Rightarrow>
          (case eventMap eid of
             Some existing \<Rightarrow> eventMap(eid \<mapsto> existing\<lparr>Status := status, SentAt := sentAt\<rparr>)
           | None \<Rightarrow> eventMap)
      | EventLine event \<Rightarrow>
          if ID event \<noteq> '''' then eventMap(ID event \<mapsto> event) else eventMap)"

text \<open>
  A file is the list of the lines the scanner delivers; a file that cannot be opened
  delivers none, and a read error ends the list. Either way \<^verbatim>\<open>Recover\<close> goes on with the
  next file.
\<close>

definition readEventsFromFile ::
  "wal_line list \<Rightarrow> (string \<rightharpoonup> PersistedEvent) \<Rightarrow> (string \<rightharpoonup> PersistedEvent)" where
  "readEventsFromFile file eventMap = fold readLine file eventMap"

definition replay :: "wal_line list list \<Rightarrow> (string \<rightharpoonup> PersistedEvent)" where
  "replay files = fold readEventsFromFile files Map.empty"

text \<open>
  \<^verbatim>\<open>Recover\<close>: \<open>files\<close> are the event files in the order of \<^verbatim>\<open>filepath.Glob\<close>, \<open>order\<close> is
  the \<^verbatim>\<open>range\<close> order over the event map. Failures to take the lock or to list the
  directory return before any file is read and are not modelled.
\<close>

definition is_live :: "PersistedEvent \<Rightarrow> bool" where
  "is_live event \<longleftrightarrow> Status event = EventStatusPending \<or> Status event = EventStatusSending"

definition collectPending ::
  "string list \<Rightarrow> (string \<rightharpoonup> PersistedEvent) \<Rightarrow> PersistedEvent list" where
  "collectPending order eventMap =
     List.map_filter
       (\<lambda>eid. case eventMap eid of
                None \<Rightarrow> None
              | Some event \<Rightarrow>
                  if is_live event then Some (event\<lparr>Status := EventStatusPending\<rparr>) else None)
       order"

definition Recover :: "string list \<Rightarrow> wal_line list list \<Rightarrow> PersistedEvent list" where
  "Recover order files = collectPending order (replay files)"

text \<open>Sample records: an event \<open>e1\<close>, and the log lines of its life.\<close>

definition e1 :: PersistedEvent where
  "e1 = \<lparr>ID = ''e1'', pe_Type = ''test.event'', pe_Data = [(''n'', VInt 1)], pe_Context = [],
         pe_Timestamp = 1700000000000, Status = EventStatusPending, SentAt = 0\<rparr>"

definition e2 :: PersistedEvent where
  "e2 = \<lparr>ID = ''e2'', pe_Type = ''test.event'', pe_Data = [], pe_Context = [],
         pe_Timestamp = 1700000000001, Status = EventStatusPending, SentAt = 0\<rparr>"

definition log_sent :: "wal_line list" where
  "log_sent =
     [event_line e1, event_line e2,
      status_update_line ''e1'' EventStatusSending 0,
      status_update_line ''e1'' EventStatusSent 1700000000500]"

definition log_sent_then_sending :: "wal_line list" where
  "log_sent_then_sending = log_sent @ [status_update_line ''e1'' EventStatusSending 0]"

text \<open>Every key of the event map is the id of the event stored under it.\<close>

definition keyed_by_id :: "(string \<rightharpoonup> PersistedEvent) \<Rightarrow> bool" where
  "keyed_by_id m \<longleftrightarrow> (\<forall>k e. m k = Some e \<longrightarrow> ID e = k)"

section \<open>HTTP client (package internal): retry loop and key rotation\<close>

record RetryConfig =
  MaxAttempts :: int
  BaseDelay :: Duration
  MaxDelay :: Duration
  rc_BackoffMultiplier :: rat
  rc_Jitter :: Duration

definition DefaultRetryConfig :: RetryConfig where
  "DefaultRetryConfig =
     \<lparr>MaxAttempts = 3, BaseDelay = Second, MaxDelay = 30 * Second, rc_BackoffMultiplier = 2,
      rc_Jitter = 100 * Millisecond\<rparr>"

text \<open>Of an \<^verbatim>\<open>HTTPResponse\<close> the status code and the body are kept.\<close>

record HTTPResponse =
  StatusCode :: int
  Body :: string

record HTTPClient =
  baseURL :: string
  hc_apiKey :: string
  secondaryAPIKey :: string
  currentAPIKey :: string
  keyRotationTimestamp :: "Time option"
  keyRotationGracePeriod :: Duration
  enableRequestSigning :: bool
  hc_timeout :: Duration
  retry :: RetryConfig
  circuitBreaker :: CircuitBreaker

text \<open>
  What one call of \<^verbatim>\<open>doRequest\<close> meets outside the repository: marshalling the body or
  building the request fails, the round trip \<^verbatim>\<open>c.client.Do\<close> fails (network error,
  timeout, cancelled context), reading the body fails, or a response with a status code
  and a body arrives.
\<close>

datatype round_trip =
    MarshalFailed string
  | NewRequestFailed string
  | DoFailed string
  | ReadFailed string
  | Responded int string

text \<open>
  The world of the client. Transport calls are numbered from 0 in the order they are
  made: \<open>transport k key\<close> is what the call number \<open>k\<close> meets when its \<^verbatim>\<open>X-API-Key\<close> header is
  \<open>key\<close>; \<open>clock k\<close> is the reading of \<^verbatim>\<open>time.Now()\<close> once \<open>k\<close> calls have been made;
  \<open>cancelled k\<close> says that, in the backoff wait that follows \<open>k\<close> calls, the context is done
  before the delay has passed. \<^verbatim>\<open>StatusText\<close> is \<^verbatim>\<open>http.StatusText\<close>. The length of the
  delay (\<^verbatim>\<open>CalculateBackoff\<close>) only moves the clock and is not modelled.
\<close>

record net_env =
  transport :: "nat \<Rightarrow> string \<Rightarrow> round_trip"
  clock :: "nat \<Rightarrow> Time"
  cancelled :: "nat \<Rightarrow> bool"
  StatusText :: "int \<Rightarrow> string"

definition NewHTTPClient ::
  "string \<Rightarrow> string \<Rightarrow> Duration \<Rightarrow> bool \<Rightarrow> Duration \<Rightarrow> RetryConfig option
   \<Rightarrow> CircuitBreakerConfig option \<Rightarrow> int \<Rightarrow> HTTPClient" where
  "NewHTTPClient APIKey SecondaryAPIKey KeyRotationGracePeriod EnableRequestSigning Timeout
     Retry CircuitBreakerCfg LocalPort =
     \<lparr>baseURL = (if LocalPort > 0
                 then ''http://localhost:'' @ FormatInt LocalPort @ ''/api/v1''
                 else ''https://api.flagkit.dev/api/v1''),
      hc_apiKey = APIKey,
      secondaryAPIKey = SecondaryAPIKey,
      currentAPIKey = APIKey,
      keyRotationTimestamp = None,
      keyRotationGracePeriod =
        (if KeyRotationGracePeriod = 0 then 5 * Minute else KeyRotationGracePeriod),
      enableRequestSigning = EnableRequestSigning,
      hc_timeout = Timeout,
      retry = (case Retry of Some r \<Rightarrow> r | None \<Rightarrow> DefaultRetryConfig),
      circuitBreaker =
        NewCircuitBreaker
          (case CircuitBreakerCfg of Some cfg \<Rightarrow> cfg | None \<Rightarrow> DefaultCircuitBreakerConfig)\<rparr>"


definition handleErrorResponse :: "net_env \<Rightarrow> int \<Rightarrow> string \<Rightarrow> go_error" where
  "handleErrorResponse env statusCode body =
     (let message = (if body = '''' then StatusText env statusCode else body)
      in if statusCode = 401 then NewError ErrAuthUnauthorized message
         else if statusCode = 403 then NewError ErrAuthInvalidKey message
         else if statusCode = 404 then NewError ErrEvalFlagNotFound message
         else if statusCode = 429 then NewError ErrNetworkRetryLimit message
         else if statusCode = 503 \<or> statusCode = 502 \<or> statusCode = 504
         then NewError ErrNetworkError message
         else NewError ErrNetworkError
                (''HTTP '' @ FormatInt statusCode @ '': '' @ message))"

definition isRetryable :: "go_error \<Rightarrow> bool" where
  "isRetryable err =
     (case err of
        FlagKitError code message cause recoverable \<Rightarrow>
          code = ErrNetworkError \<or> code = ErrNetworkTimeout
      | OtherError reason \<Rightarrow> False)"

definition doRequest :: "net_env \<Rightarrow> HTTPClient \<Rightarrow> nat \<Rightarrow> go_error + HTTPResponse" where
  "doRequest env c k =
     (case transport env k (currentAPIKey c) of
        MarshalFailed reason \<Rightarrow>
          Inl (NewErrorWithCause ErrNetworkError ''failed to marshal request body''
                 (Some (OtherError reason)))
      | NewRequestFailed reason \<Rightarrow>
          Inl (NewErrorWithCause ErrNetworkError ''failed to create request''
                 (Some (OtherError reason)))
      | DoFailed reason \<Rightarrow>
          Inl (NewErrorWithCause ErrNetworkError ''request failed'' (Some (OtherError reason)))
      | ReadFailed reason \<Rightarrow>
          Inl (NewErrorWithCause ErrNetworkError ''failed to read response body''
                 (Some (OtherError reason)))
      | Responded status body \<Rightarrow>
          if status \<ge> 400 then Inl (handleErrorResponse env status body)
          else Inr \<lparr>StatusCode = status, Body = body\<rparr>)"

text \<open>
  The end of \<^verbatim>\<open>request\<close> after the loop: a failure is recorded on the breaker and the last
  error (nil when the loop made no attempt) is wrapped.
\<close>

definition retriesExhausted ::
  "net_env \<Rightarrow> HTTPClient \<Rightarrow> nat \<Rightarrow> go_error option
   \<Rightarrow> (go_error + HTTPResponse) \<times> HTTPClient \<times> nat" where
  "retriesExhausted env c k lastErr =
     (Inl (NetworkError ErrNetworkRetryLimit ''max retries exceeded'' lastErr),
      c\<lparr>circuitBreaker := RecordFailure (clock env k) (circuitBreaker c)\<rparr>,
      k)"

text \<open>
  The \<^verbatim>\<open>for\<close> loop of \<^verbatim>\<open>request\<close>. \<open>k\<close> counts the transport calls made so far; the result
  is the returned pair, the client and the new count.
\<close>

function requestLoop ::
  "net_env \<Rightarrow> HTTPClient \<Rightarrow> nat \<Rightarrow> int \<Rightarrow> go_error option
   \<Rightarrow> (go_error + HTTPResponse) \<times> HTTPClient \<times> nat" where
  "requestLoop env c k attempt lastErr =
     (if attempt \<le> MaxAttempts (retry c) then
        (case doRequest env c k of
           Inr resp \<Rightarrow>
             (Inr resp, c\<lparr>circuitBreaker := RecordSuccess (circuitBreaker c)\<rparr>, Suc k)
         | Inl err \<Rightarrow>
             if \<not> isRetryable err
             then (Inl err,
                   c\<lparr>circuitBreaker := RecordFailure (clock env (Suc k)) (circuitBreaker c)\<rparr>,
                   Suc k)
             else if attempt \<ge> MaxAttempts (retry c)
             then retriesExhausted env c (Suc k) (Some err)
             else if cancelled env (Suc k)
             then (Inl (OtherError ''context canceled''), c, Suc k)
             else requestLoop env c (Suc k) (attempt + 1) (Some err))
      else retriesExhausted env c k lastErr)"
  by pat_completeness auto
termination
  by (relation "measure (\<lambda>(env, c, k, attempt, lastErr). nat (MaxAttempts (retry c) - attempt))")
    auto

definition request ::
  "net_env \<Rightarrow> HTTPClient \<Rightarrow> nat \<Rightarrow> (go_error + HTTPResponse) \<times> HTTPClient \<times> nat" where
  "request env c k =
     (let (allowed, cb) = Allow (clock env k) (circuitBreaker c);
          c' = c\<lparr>circuitBreaker := cb\<rparr>
      in if \<not> allowed then (Inl (NewError ErrCircuitOpen ''circuit breaker is open''), c', k)
         else requestLoop env c' k 1 None)"


text \<open>
  \<^verbatim>\<open>request\<close> begins with \<^verbatim>\<open>circuitBreaker.Allow()\<close>: \<open>admitted\<close> is its answer and \<open>afterAllow\<close>
  the client once the breaker has answered. \<open>retryable_failures env c k j errs\<close> says that
  the transport calls \<open>k, \<dots>, k + j - 1\<close> of client \<open>c\<close> fail with the retryable errors
  \<open>errs 0, \<dots>, errs (j - 1)\<close> and that none of the waits after them is cancelled.
\<close>

definition admitted :: "net_env \<Rightarrow> HTTPClient \<Rightarrow> nat \<Rightarrow> bool" where
  "admitted env c k = fst (Allow (clock env k) (circuitBreaker c))"

definition afterAllow :: "net_env \<Rightarrow> HTTPClient \<Rightarrow> nat \<Rightarrow> HTTPClient" where
  "afterAllow env c k = c\<lparr>circuitBreaker := snd (Allow (clock env k) (circuitBreaker c))\<rparr>"

definition retryable_failures ::
  "net_env \<Rightarrow> HTTPClient \<Rightarrow> nat \<Rightarrow> nat \<Rightarrow> (nat \<Rightarrow> go_error) \<Rightarrow> bool" where
  "retryable_failures env c k j errs \<longleftrightarrow>
     (\<forall>i<j. doRequest env c (k + i) = Inl (errs i) \<and> isRetryable (errs i)
            \<and> \<not> cancelled env (Suc (k + i)))"

text \<open>Sample clients and servers for the concrete runs.\<close>

definition primary_key :: string where "primary_key = ''sdk_primary_key_12345''"

definition wall_clock :: "nat \<Rightarrow> Time" where
  "wall_clock k = int k * Second"

definition server :: "(nat \<Rightarrow> string \<Rightarrow> round_trip) \<Rightarrow> net_env" where
  "server f =
     \<lparr>transport = f, clock = wall_clock, cancelled = (\<lambda>k. False),
      StatusText = (\<lambda>status. ''status reason'')\<rparr>"

text \<open>A client with the default retry policy (3 attempts) and the default breaker.\<close>

definition default_client :: HTTPClient where
  "default_client = NewHTTPClient primary_key '''' 0 False (5 * Second) None None 0"

text \<open>A client with two attempts per request, and one with a secondary key and one attempt.\<close>

definition two_attempts :: RetryConfig where
  "two_attempts = DefaultRetryConfig\<lparr>MaxAttempts := 2\<rparr>"


definition retrying_client :: HTTPClient where
  "retrying_client =
     NewHTTPClient primary_key '''' 0 False (5 * Second) (Some two_attempts) None 0"


definition bad_request_server :: net_env where
  "bad_request_server = server (\<lambda>k key. Responded 400 ''bad request'')"

definition flaky_server :: net_env where
  "flaky_server =
     server (\<lambda>k key. if k = 0 then Responded 500 ''internal error'' else Responded 200 ''ok'')"

definition down_server :: net_env where
  "down_server =
     server (\<lambda>k key. if k = 0 then DoFailed ''connection refused'' else Responded 503 '''')"

definition missing_server :: net_env where
  "missing_server =
     server (\<lambda>k key. if k = 0 then Responded 500 ''internal error'' else Responded 404 ''no such flag'')"



text \<open>
  A client whose breaker is open (the breaker \<open>probe_open\<close>, last failure at 10 ms), and one
  configured with no attempts at all, as option validation permits (\<^verbatim>\<open>Retries = 0\<close>).
\<close>

definition tripped_client :: HTTPClient where
  "tripped_client = retrying_client\<lparr>circuitBreaker := probe_open\<rparr>"

definition no_attempts_client :: HTTPClient where
  "no_attempts_client = retrying_client\<lparr>retry := DefaultRetryConfig\<lparr>MaxAttempts := 0\<rparr>\<rparr>"

definition http500 :: go_error where
  "http500 = NewError ErrNetworkError ''HTTP 500: internal error''"











section \<open>\<^verbatim>\<open>float64\<close> arithmetic\<close>

text \<open>
  A \<^verbatim>\<open>float64\<close> is a finite value, an infinity or a NaN; the finite values are the
  rationals \<open>n * 2^e\<close> with \<open>|n| < 2^53\<close> and \<open>-1074 \<le> e\<close> below \<open>2^1024\<close>. The sign of zero
  is left out: no operation below tells the two zeros apart. The arithmetic of Go is that
  of IEEE 754 with rounding to the nearest value, ties to the value with an even
  significand: \<open>round_float64\<close> is that rounding of an exact result, with overflow to an
  infinity.

  \<open>ilog2 a\<close> is the exponent \<open>\<lfloor>log\<^sub>2 a\<rfloor>\<close> of a positive \<open>a\<close>, and \<open>ulp a\<close> is the distance
  between the neighbouring values of \<open>a\<close>: \<open>2^(e - 52)\<close>, with the exponent no lower than that
  of the subnormal numbers.
\<close>

datatype float64 = Finite rat | PosInf | NegInf | NaN

definition ilog2 :: "rat \<Rightarrow> int" where
  "ilog2 a = (if 1 \<le> a then bitlen \<lfloor>a\<rfloor> - 1 else - bitlen (\<lceil>1 / a\<rceil> - 1))"

definition round_half_even :: "rat \<Rightarrow> int" where
  "round_half_even q =
     (let f = \<lfloor>q\<rfloor>; d = q - of_int f
      in if d < 1 / 2 then f else if 1 / 2 < d then f + 1 else if even f then f else f + 1)"

definition ulp :: "rat \<Rightarrow> rat" where
  "ulp a = 2 powi (max (ilog2 a) (- 1022) - 52)"

definition round_float64 :: "rat \<Rightarrow> float64" where
  "round_float64 x =
     (if x = 0 then Finite 0
      else let a = \<bar>x\<bar>;
               r = of_int (round_half_even (a / ulp a)) * ulp a
           in if 2 powi 1024 \<le> r then (if 0 < x then PosInf else NegInf)
              else Finite (if 0 < x then r else - r))"

text \<open>The conversion \<^verbatim>\<open>float64(i)\<close> of an \<^verbatim>\<open>int64\<close>, and the product of two \<^verbatim>\<open>float64\<close>.\<close>

definition float64_of_int64 :: "int \<Rightarrow> float64" where
  "float64_of_int64 i = round_float64 (of_int i)"

definition float64_sign :: "float64 \<Rightarrow> int" where
  "float64_sign x =
     (case x of
        Finite a \<Rightarrow> (if 0 < a then 1 else if a < 0 then - 1 else 0)
      | PosInf \<Rightarrow> 1 | NegInf \<Rightarrow> - 1 | NaN \<Rightarrow> 0)"

definition float64_mul :: "float64 \<Rightarrow> float64 \<Rightarrow> float64" where
  "float64_mul x y =
     (case (x, y) of
        (Finite a, Finite b) \<Rightarrow> round_float64 (a * b)
      | (NaN, _) \<Rightarrow> NaN
      | (_, NaN) \<Rightarrow> NaN
      | _ \<Rightarrow> (let s = float64_sign x * float64_sign y
              in if s = 0 then NaN else if 0 < s then PosInf else NegInf))"

text \<open>
  The conversion of a \<^verbatim>\<open>float64\<close> to \<^verbatim>\<open>int64\<close> (here \<^verbatim>\<open>time.Duration(f)\<close>) drops the fraction.
  When the truncated value is no \<^verbatim>\<open>int64\<close>, or the value is an infinity or a NaN, the
  language leaves the result to the implementation: it is the parameter
  \<open>unrepresentable\<close>. On amd64 it is the least \<^verbatim>\<open>int64\<close> whatever the value.
\<close>

definition truncate_rat :: "rat \<Rightarrow> int" where
  "truncate_rat x = (if 0 \<le> x then \<lfloor>x\<rfloor> else \<lceil>x\<rceil>)"

definition float64_to_int64 :: "(float64 \<Rightarrow> int) \<Rightarrow> float64 \<Rightarrow> int" where
  "float64_to_int64 unrepresentable x =
     (case x of
        Finite r \<Rightarrow>
          if - (2 ^ 63) \<le> truncate_rat r \<and> truncate_rat r < 2 ^ 63 then truncate_rat r
          else unrepresentable x
      | _ \<Rightarrow> unrepresentable x)"

definition amd64 :: "float64 \<Rightarrow> int" where
  "amd64 x = - (2 ^ 63)"

text \<open>The increment of an \<^verbatim>\<open>int\<close> (64 bits) wraps around.\<close>

definition wrap_int64 :: "int \<Rightarrow> int" where
  "wrap_int64 i = (i + 2 ^ 63) mod 2 ^ 64 - 2 ^ 63"

section \<open>Polling manager (internal/core, polling)\<close>

record PollingConfig =
  Interval :: Duration
  Jitter :: Duration
  BackoffMultiplier :: float64
  MaxInterval :: Duration

record PollingManager =
  pm_config :: PollingConfig
  currentInterval :: Duration
  consecutiveErrors :: int
  running :: bool

definition NewPollingManager :: "PollingConfig \<Rightarrow> PollingManager" where
  "NewPollingManager cfg =
     \<lparr>pm_config = cfg, currentInterval = Interval cfg, consecutiveErrors = 0, running = False\<rparr>"

definition GetCurrentInterval :: "PollingManager \<Rightarrow> Duration" where
  "GetCurrentInterval pm = currentInterval pm"

definition OnSuccess :: "PollingManager \<Rightarrow> PollingManager" where
  "OnSuccess pm = pm\<lparr>consecutiveErrors := 0, currentInterval := Interval (pm_config pm)\<rparr>"

text \<open>
  \<^verbatim>\<open>OnError\<close> computes \<^verbatim>\<open>time.Duration(float64(pm.currentInterval) * pm.config.BackoffMultiplier)\<close>:
  the interval is converted to \<^verbatim>\<open>float64\<close>, multiplied in \<^verbatim>\<open>float64\<close> and converted back.
  The first argument is the result the platform gives to a conversion of a value that is
  no \<^verbatim>\<open>int64\<close>.
\<close>

definition OnError :: "(float64 \<Rightarrow> int) \<Rightarrow> PollingManager \<Rightarrow> PollingManager" where
  "OnError unrepresentable pm =
     (let newInterval =
            float64_to_int64 unrepresentable
              (float64_mul (float64_of_int64 (currentInterval pm))
                 (BackoffMultiplier (pm_config pm)));
          newInterval' = (if newInterval > MaxInterval (pm_config pm)
                          then MaxInterval (pm_config pm) else newInterval)
      in pm\<lparr>consecutiveErrors := wrap_int64 (consecutiveErrors pm + 1),
            currentInterval := newInterval'\<rparr>)"

text \<open>The configuration of the backoff scenario: base 100 ms, multiplier 2, cap 500 ms.\<close>

definition backoff_example :: PollingConfig where
  "backoff_example =
     \<lparr>Interval = 100 * Millisecond, Jitter = 0, BackoffMultiplier = Finite 2,
      MaxInterval = 500 * Millisecond\<rparr>"

text \<open>
  The configuration the client builds in \<^verbatim>\<open>startPolling\<close> (multiplier 2, cap 5 minutes,
  jitter 1 s) when the configured polling interval is 10 minutes; option validation only
  asks for an interval of at least one second.
\<close>

definition client_polling_10min :: PollingConfig where
  "client_polling_10min =
     \<lparr>Interval = 10 * Minute, Jitter = Second, BackoffMultiplier = Finite 2,
      MaxInterval = 5 * Minute\<rparr>"

text \<open>
  Two configurations at the edge of the arithmetic: an interval of \<open>2^62\<close> ns with
  multiplier 2, and an interval of \<open>2^53 + 1\<close> ns with multiplier 1, both under the largest
  cap.
\<close>

definition wide_config :: PollingConfig where
  "wide_config =
     \<lparr>Interval = 2 ^ 62, Jitter = 0, BackoffMultiplier = Finite 2, MaxInterval = 2 ^ 63 - 1\<rparr>"

definition fine_config :: PollingConfig where
  "fine_config =
     \<lparr>Interval = 2 ^ 53 + 1, Jitter = 0, BackoffMultiplier = Finite 1,
      MaxInterval = 2 ^ 63 - 1\<rparr>"

section \<open>Cache capacity and eviction\<close>

lemma scanOldest_inv:
  assumes "set keys \<subseteq> dom m"
    and "first \<or> (\<exists>e. m ok = Some e \<and> FetchedAt e = ot)"
  shows "(case scanOldest m keys (ok, ot, first) of (ok', ot', first') \<Rightarrow>
           (first' \<longrightarrow> first \<and> keys = [])
           \<and> (\<not> first' \<longrightarrow> (\<exists>e. m ok' = Some e \<and> FetchedAt e = ot')
                            \<and> (ok' \<in> set keys \<or> (\<not> first \<and> ok' = ok)))
           \<and> (\<forall>k \<in> set keys. \<forall>e. m k = Some e \<longrightarrow> ot' \<le> FetchedAt e)
           \<and> (\<not> first \<longrightarrow> ot' \<le> ot))"
  using assms
proof (induction keys arbitrary: ok ot first)
  case Nil
  then show ?case by auto
next
  case (Cons k ks)
  from Cons.prems(1) obtain e where e: "m k = Some e" by auto
  have sub: "set ks \<subseteq> dom m" using Cons.prems(1) by simp
  show ?case
  proof (cases "first \<or> FetchedAt e < ot")
    case True
    have "False \<or> (\<exists>e'. m k = Some e' \<and> FetchedAt e' = FetchedAt e)" using e by simp
    from Cons.IH [OF sub this] True e show ?thesis
      by (auto split: prod.splits)
  next
    case False
    from Cons.IH [OF sub Cons.prems(2)] False e show ?thesis
      by (auto split: prod.splits)
  qed
qed

lemma oldestKeyOf_oldest:
  assumes rng: "is_range order m" and ne: "m \<noteq> Map.empty"
  shows "\<exists>e. m (oldestKeyOf order m) = Some e
             \<and> (\<forall>k e'. m k = Some e' \<longrightarrow> FetchedAt e \<le> FetchedAt e')"
proof -
  have sub: "set order \<subseteq> dom m" and all: "dom m = set order"
    using rng by (simp_all add: is_range_def)
  have nonempty: "order \<noteq> []" using ne all by auto
  obtain ok' ot' first' where r: "scanOldest m order ('''', 0, True) = (ok', ot', first')"
    by (cases "scanOldest m order ('''', 0, True)") auto
  from scanOldest_inv [OF sub, of True "''''" 0] r nonempty
  have nf: "\<not> first'"
    and ex: "\<not> first' \<longrightarrow> (\<exists>e. m ok' = Some e \<and> FetchedAt e = ot')"
    and mn: "\<forall>k \<in> set order. \<forall>e. m k = Some e \<longrightarrow> ot' \<le> FetchedAt e"
    by auto
  from nf ex obtain e where e: "m ok' = Some e" "FetchedAt e = ot'" by auto
  have "\<forall>k e'. m k = Some e' \<longrightarrow> FetchedAt e \<le> FetchedAt e'"
    using mn all e(2) by (metis domI)
  with e r show ?thesis by (simp add: oldestKeyOf_def)
qed

lemma evictOldest_removes:
  assumes rng: "is_range order (entries c)" and ne: "entries c \<noteq> Map.empty"
    and keyed: "'''' \<notin> dom (entries c)"
  shows "entries (evictOldest order c) = (entries c)(oldestKeyOf order (entries c) := None)"
    and "oldestKeyOf order (entries c) \<in> dom (entries c)"
    and "card (dom (entries (evictOldest order c))) + 1 = card (dom (entries c))"
proof -
  from oldestKeyOf_oldest [OF rng ne] obtain e
    where e: "entries c (oldestKeyOf order (entries c)) = Some e" by blast
  then show in_dom: "oldestKeyOf order (entries c) \<in> dom (entries c)" by auto
  with keyed have nonempty: "oldestKeyOf order (entries c) \<noteq> ''''" by auto
  then show ev: "entries (evictOldest order c)
      = (entries c)(oldestKeyOf order (entries c) := None)"
    by (simp add: evictOldest_def Let_def)
  have fin: "finite (dom (entries c))"
    using rng by (metis is_range_def List.finite_set)
  have "card (dom (entries c) - {oldestKeyOf order (entries c)}) + 1 = card (dom (entries c))"
    using fin in_dom by (metis card_Suc_Diff1 Suc_eq_plus1)
  then show "card (dom (entries (evictOldest order c))) + 1 = card (dom (entries c))"
    by (simp add: ev)
qed

lemma Set_entry_existing:
  assumes "entries c key \<noteq> None"
  shows "entries (Set_entry order now key flag ttls c)
         = (entries c)(key \<mapsto> newEntry c now flag ttls)"
    and "Size (Set_entry order now key flag ttls c) = Size c"
proof -
  from assms obtain e where "entries c key = Some e" by auto
  then show a: "entries (Set_entry order now key flag ttls c)
         = (entries c)(key \<mapsto> newEntry c now flag ttls)"
    by (simp add: Set_entry_def Let_def)
  have "insert key (dom (entries c)) = dom (entries c)" using assms by auto
  then show "Size (Set_entry order now key flag ttls c) = Size c"
    by (simp add: a Size_def)
qed

lemma Set_entry_room:
  assumes "Size c < maxSize c"
  shows "entries (Set_entry order now key flag ttls c)
         = (entries c)(key \<mapsto> newEntry c now flag ttls)"
  using assms by (simp add: Set_entry_def Let_def)

lemma Set_entry_full_new:
  assumes full: "maxSize c \<le> Size c" and new: "entries c key = None"
    and rng: "is_range order (entries c)" and ne: "entries c \<noteq> Map.empty"
    and keyed: "'''' \<notin> dom (entries c)"
  shows "entries (Set_entry order now key flag ttls c)
         = ((entries c)(oldestKeyOf order (entries c) := None))
             (key \<mapsto> newEntry c now flag ttls)"
    and "Size (Set_entry order now key flag ttls c) = Size c"
proof -
  note ev = evictOldest_removes [OF rng ne keyed]
  show a: "entries (Set_entry order now key flag ttls c)
         = ((entries c)(oldestKeyOf order (entries c) := None))
             (key \<mapsto> newEntry c now flag ttls)"
    using full new ev(1) by (simp add: Set_entry_def Let_def)
  have fin: "finite (dom (entries c))"
    using rng by (metis is_range_def List.finite_set)
  have notin: "key \<notin> dom (entries c) - {oldestKeyOf order (entries c)}"
    using new by auto
  have "card (insert key (dom (entries c) - {oldestKeyOf order (entries c)}))
        = card (dom (entries c) - {oldestKeyOf order (entries c)}) + 1"
    using fin notin by simp
  also have "\<dots> = card (dom (entries c))"
    using ev(1) ev(3) by simp
  finally show "Size (Set_entry order now key flag ttls c) = Size c"
    by (simp add: a Size_def)
qed


lemma Set_entry_maxSize [simp]: "maxSize (Set_entry order now key flag ttls c) = maxSize c"
  by (simp add: Set_entry_def evictOldest_def Let_def)

lemma apply_op_maxSize [simp]: "maxSize (apply_op op c) = maxSize c"
  by (cases op) (simp_all add: Delete_def Clear_def split: option.splits)

lemma Set_entry_inv:
  assumes inv: "cache_inv c" and pos: "1 \<le> maxSize c" and key: "key \<noteq> ''''"
    and rng: "is_range order (entries c)"
  shows "cache_inv (Set_entry order now key flag ttls c)"
proof -
  let ?c' = "Set_entry order now key flag ttls c"
  from inv have fin: "finite (dom (entries c))" and keyed: "'''' \<notin> dom (entries c)"
    and le: "Size c \<le> maxSize c" by (simp_all add: cache_inv_def)
  consider (existing) "entries c key \<noteq> None"
    | (room) "entries c key = None" "Size c < maxSize c"
    | (full) "entries c key = None" "maxSize c \<le> Size c"
    by linarith
  then show ?thesis
  proof cases
    case existing
    from Set_entry_existing [OF existing, of order now flag ttls] fin keyed key le
    show ?thesis by (simp add: cache_inv_def)
  next
    case room
    have e: "entries ?c' = (entries c)(key \<mapsto> newEntry c now flag ttls)"
      by (rule Set_entry_room [OF room(2)])
    have "card (insert key (dom (entries c))) \<le> card (dom (entries c)) + 1"
      using fin by (simp add: card_insert_if)
    then have "Size ?c' \<le> Size c + 1" by (simp add: e Size_def)
    with room(2) fin keyed key e show ?thesis by (simp add: cache_inv_def)
  next
    case full
    have "1 \<le> Size c" using full(2) pos by linarith
    then have ne: "entries c \<noteq> Map.empty" by (auto simp add: Size_def)
    from Set_entry_full_new [OF full(2) full(1) rng ne keyed, of now flag ttls] fin keyed key le
    show ?thesis by (simp add: cache_inv_def)
  qed
qed

lemma apply_op_inv:
  assumes inv: "cache_inv c" and pos: "1 \<le> maxSize c" and key: "op_keyed op"
    and rng: "ops_ranged [op] c"
  shows "cache_inv (apply_op op c)"
proof (cases op)
  case (OpSet order now key flag ttls)
  with Set_entry_inv [OF inv pos, of key order now flag ttls] key rng show ?thesis by simp
next
  case (OpDelete key)
  have "card (dom (entries c) - {key}) \<le> card (dom (entries c))"
    using inv by (simp add: cache_inv_def card_Diff1_le)
  with inv OpDelete show ?thesis
    by (auto simp add: cache_inv_def Delete_def Size_def split: option.splits)
next
  case OpClear
  with inv pos show ?thesis by (simp add: cache_inv_def Clear_def Size_def)
qed

lemma run_ops_inv:
  assumes "cache_inv c" and "1 \<le> maxSize c" and "ops_keyed ops" and "ops_ranged ops c"
  shows "cache_inv (run_ops ops c) \<and> maxSize (run_ops ops c) = maxSize c"
  using assms
proof (induction ops arbitrary: c)
  case Nil
  then show ?case by (simp add: run_ops_def)
next
  case (Cons op ops)
  have k: "op_keyed op" and ks: "ops_keyed ops"
    using Cons.prems(3) by (simp_all add: ops_keyed_def)
  have r1: "ops_ranged [op] c" and rs: "ops_ranged ops (apply_op op c)"
    using Cons.prems(4) by (cases op; simp)+
  have inv': "cache_inv (apply_op op c)"
    by (rule apply_op_inv [OF Cons.prems(1) Cons.prems(2) k r1])
  have pos': "1 \<le> maxSize (apply_op op c)" using Cons.prems(2) by simp
  from Cons.IH [OF inv' pos' ks rs] show ?case by (simp add: run_ops_def)
qed

lemma NewCache_inv: "0 \<le> MaxSize config \<Longrightarrow> cache_inv (NewCache config)"
  by (simp add: cache_inv_def NewCache_def Size_def)


lemma set_a_entries:
  "entries (run_ops [set_a] (NewCache two_slot_config))
     = [''a'' \<mapsto> \<lparr>Flag = flag_of ''a'' (VBool True) FlagTypeBoolean, FetchedAt = 1,
                     ExpiresAt = 1 + 5 * Minute\<rparr>]"
  by (simp add: run_ops_def set_a_def NewCache_def two_slot_config_def Set_entry_def Size_def
      newEntry_def Let_def)

lemma two_slot_full_entries:
  "entries two_slot_full
     = [''a'' \<mapsto> \<lparr>Flag = flag_of ''a'' (VBool True) FlagTypeBoolean, FetchedAt = 1,
                     ExpiresAt = 1 + 5 * Minute\<rparr>,
        ''b'' \<mapsto> \<lparr>Flag = flag_of ''b'' (VBool False) FlagTypeBoolean, FetchedAt = 2,
                     ExpiresAt = 2 + 5 * Minute\<rparr>]"
    and two_slot_full_maxSize: "maxSize two_slot_full = 2"
    and two_slot_full_ttl: "ttl two_slot_full = 5 * Minute"
  by (simp_all add: two_slot_full_def run_ops_def set_a_def set_b_def NewCache_def
      two_slot_config_def Set_entry_def Size_def newEntry_def Let_def)

lemma two_slot_full_dom: "dom (entries two_slot_full) = {''a'', ''b''}"
  by (auto simp add: two_slot_full_entries)

lemma two_slot_full_Size: "Size two_slot_full = 2"
  by (simp add: Size_def two_slot_full_dom)

lemma two_slot_full_oldest: "oldestKeyOf [''b'', ''a''] (entries two_slot_full) = ''a''"
  by (simp add: oldestKeyOf_def two_slot_full_entries)

text \<open>
  The sentinel of \<^verbatim>\<open>evictOldest\<close>: an oldest entry stored under the empty key is not
  deleted, and the cache then grows past \<^verbatim>\<open>maxSize\<close>. The amended claim below is about
  non-empty keys and says nothing about this case.
\<close>

lemma evictOldest_empty_key_kept:
  "Size (run_ops
          [OpSet [] 1 '''' (flag_of '''' (VBool True) FlagTypeBoolean) [],
           OpSet [''''] 2 ''a'' (flag_of ''a'' (VBool True) FlagTypeBoolean) []]
          (NewCache \<lparr>TTL = 5 * Minute, MaxSize = 1\<rparr>)) = 2"
  by (simp add: run_ops_def NewCache_def Set_entry_def Size_def evictOldest_def oldestKeyOf_def
      newEntry_def Let_def)

text \<open>
  C5 as stated fails: \<^verbatim>\<open>NewCache\<close> accepts \<^verbatim>\<open>MaxSize = 0\<close> (the zero value of the config
  field), and the first \<^verbatim>\<open>Set\<close> then finds nothing to evict and stores the entry.
\<close>

theorem C5_zero_capacity_counterexample:
  "\<not> Size (run_ops [set_a] (NewCache zero_size_config)) \<le> MaxSize zero_size_config"
  by (simp add: run_ops_def set_a_def NewCache_def zero_size_config_def Set_entry_def Size_def
      evictOldest_def oldestKeyOf_def Let_def)

text \<open>
  C5 (amended). For a cache built with \<^verbatim>\<open>MaxSize\<close> \<open>N \<ge> 1\<close> and used with non-empty keys,
  \<open>Size \<le> N\<close> holds after every sequence of \<^verbatim>\<open>Set\<close>, \<^verbatim>\<open>Delete\<close> and \<^verbatim>\<open>Clear\<close>. When
  \<^verbatim>\<open>Set\<close> is called with a key that is not present while the cache holds at least \<open>N\<close>
  entries (all under non-empty keys), an entry whose \<^verbatim>\<open>FetchedAt\<close> is minimal is removed
  and the new entry inserted, so the size does not change; a \<^verbatim>\<open>Set\<close> on a present key
  replaces its entry and removes nothing.
\<close>

theorem C5_cache_capacity:
  "(1 \<le> MaxSize config \<and> ops_keyed ops \<and> ops_ranged ops (NewCache config)
      \<longrightarrow> Size (run_ops ops (NewCache config)) \<le> MaxSize config)
   \<and> (1 \<le> maxSize c \<and> maxSize c \<le> Size c \<and> entries c key = None
        \<and> is_range order (entries c) \<and> '''' \<notin> dom (entries c)
      \<longrightarrow> (\<exists>e. entries c (oldestKeyOf order (entries c)) = Some e
               \<and> (\<forall>k e'. entries c k = Some e' \<longrightarrow> FetchedAt e \<le> FetchedAt e'))
          \<and> entries (Set_entry order now key flag ttls c)
              = ((entries c)(oldestKeyOf order (entries c) := None))
                  (key \<mapsto> newEntry c now flag ttls)
          \<and> Size (Set_entry order now key flag ttls c) = Size c)
   \<and> (entries c key \<noteq> None
      \<longrightarrow> entries (Set_entry order now key flag ttls c)
            = (entries c)(key \<mapsto> newEntry c now flag ttls)
          \<and> Size (Set_entry order now key flag ttls c) = Size c)"
proof -
  have a: "1 \<le> MaxSize config \<and> ops_keyed ops \<and> ops_ranged ops (NewCache config)
      \<longrightarrow> Size (run_ops ops (NewCache config)) \<le> MaxSize config"
  proof (intro impI, elim conjE)
    assume h: "1 \<le> MaxSize config" "ops_keyed ops" "ops_ranged ops (NewCache config)"
    have m: "maxSize (NewCache config) = MaxSize config" by (simp add: NewCache_def)
    have i: "cache_inv (NewCache config)" using h(1) by (intro NewCache_inv) simp
    have p: "1 \<le> maxSize (NewCache config)" using h(1) m by simp
    from run_ops_inv [OF i p h(2) h(3)] m
    show "Size (run_ops ops (NewCache config)) \<le> MaxSize config"
      by (simp add: cache_inv_def)
  qed
  have b: "1 \<le> maxSize c \<and> maxSize c \<le> Size c \<and> entries c key = None
        \<and> is_range order (entries c) \<and> '''' \<notin> dom (entries c)
      \<longrightarrow> (\<exists>e. entries c (oldestKeyOf order (entries c)) = Some e
               \<and> (\<forall>k e'. entries c k = Some e' \<longrightarrow> FetchedAt e \<le> FetchedAt e'))
          \<and> entries (Set_entry order now key flag ttls c)
              = ((entries c)(oldestKeyOf order (entries c) := None))
                  (key \<mapsto> newEntry c now flag ttls)
          \<and> Size (Set_entry order now key flag ttls c) = Size c"
  proof (intro impI, elim conjE)
    assume h: "1 \<le> maxSize c" "maxSize c \<le> Size c" "entries c key = None"
      "is_range order (entries c)" "'''' \<notin> dom (entries c)"
    have "1 \<le> Size c" using h(1) h(2) by linarith
    then have ne: "entries c \<noteq> Map.empty" by (auto simp add: Size_def)
    from oldestKeyOf_oldest [OF h(4) ne]
      Set_entry_full_new [OF h(2) h(3) h(4) ne h(5), of now flag ttls]
    show "(\<exists>e. entries c (oldestKeyOf order (entries c)) = Some e
               \<and> (\<forall>k e'. entries c k = Some e' \<longrightarrow> FetchedAt e \<le> FetchedAt e'))
          \<and> entries (Set_entry order now key flag ttls c)
              = ((entries c)(oldestKeyOf order (entries c) := None))
                  (key \<mapsto> newEntry c now flag ttls)
          \<and> Size (Set_entry order now key flag ttls c) = Size c"
      by blast
  qed
  have c: "entries c key \<noteq> None
      \<longrightarrow> entries (Set_entry order now key flag ttls c)
            = (entries c)(key \<mapsto> newEntry c now flag ttls)
          \<and> Size (Set_entry order now key flag ttls c) = Size c"
    using Set_entry_existing [of c key order now flag ttls] by blast
  from a b c show ?thesis by blast
qed

theorem C5_cache_capacity_witness:
  "1 \<le> MaxSize two_slot_config \<and> ops_keyed [set_a, set_b, set_c]
   \<and> ops_ranged [set_a, set_b, set_c] (NewCache two_slot_config)
   \<and> Size (run_ops [set_a, set_b, set_c] (NewCache two_slot_config)) \<le> MaxSize two_slot_config
   \<and> 1 \<le> maxSize two_slot_full \<and> maxSize two_slot_full \<le> Size two_slot_full
   \<and> entries two_slot_full ''c'' = None
   \<and> is_range [''b'', ''a''] (entries two_slot_full)
   \<and> '''' \<notin> dom (entries two_slot_full)
   \<and> entries (Set_entry [''b'', ''a''] 3 ''c'' (flag_of ''c'' (VString ''x'') FlagTypeString) []
                two_slot_full) ''a'' = None
   \<and> Size (Set_entry [''b'', ''a''] 3 ''c'' (flag_of ''c'' (VString ''x'') FlagTypeString) []
             two_slot_full) = 2
   \<and> entries two_slot_full ''b'' \<noteq> None
   \<and> Size (Set_entry [''b'', ''a''] 4 ''b'' (flag_of ''b'' (VBool True) FlagTypeBoolean) []
             two_slot_full) = 2"
proof -
  have r1: "is_range [] (entries (NewCache two_slot_config))"
    by (simp add: is_range_def NewCache_def)
  have r2: "is_range [''a''] (entries (run_ops [set_a] (NewCache two_slot_config)))"
    by (auto simp add: is_range_def set_a_entries)
  have r3: "is_range [''b'', ''a''] (entries two_slot_full)"
    by (auto simp add: is_range_def two_slot_full_dom)
  have h1: "1 \<le> MaxSize two_slot_config \<and> ops_keyed [set_a, set_b, set_c]
      \<and> ops_ranged [set_a, set_b, set_c] (NewCache two_slot_config)"
    using r1 r2 r3
    by (simp add: two_slot_config_def ops_keyed_def set_a_def set_b_def set_c_def
        two_slot_full_def run_ops_def)
  have h2: "1 \<le> maxSize two_slot_full \<and> maxSize two_slot_full \<le> Size two_slot_full
      \<and> entries two_slot_full ''c'' = None \<and> is_range [''b'', ''a''] (entries two_slot_full)
      \<and> '''' \<notin> dom (entries two_slot_full)"
    using r3 by (simp add: two_slot_full_maxSize two_slot_full_Size two_slot_full_dom)
      (simp add: two_slot_full_entries)
  have h3: "entries two_slot_full ''b'' \<noteq> None"
    by (simp add: two_slot_full_entries)
  note t1 = C5_cache_capacity [where config = two_slot_config and ops = "[set_a, set_b, set_c]"]
  note t2 = C5_cache_capacity [where c = two_slot_full and key = "''c''"
      and order = "[''b'', ''a'']" and now = 3
      and flag = "flag_of ''c'' (VString ''x'') FlagTypeString" and ttls = "[]"]
  note t3 = C5_cache_capacity [where c = two_slot_full and key = "''b''"
      and order = "[''b'', ''a'']" and now = 4
      and flag = "flag_of ''b'' (VBool True) FlagTypeBoolean" and ttls = "[]"]
  have c1: "Size (run_ops [set_a, set_b, set_c] (NewCache two_slot_config))
      \<le> MaxSize two_slot_config"
    using t1 h1 by blast
  have c2: "entries (Set_entry [''b'', ''a''] 3 ''c''
                (flag_of ''c'' (VString ''x'') FlagTypeString) [] two_slot_full)
            = ((entries two_slot_full)(oldestKeyOf [''b'', ''a''] (entries two_slot_full) := None))
                (''c'' \<mapsto> newEntry two_slot_full 3
                    (flag_of ''c'' (VString ''x'') FlagTypeString) [])
      \<and> Size (Set_entry [''b'', ''a''] 3 ''c''
                (flag_of ''c'' (VString ''x'') FlagTypeString) [] two_slot_full)
          = Size two_slot_full"
    using t2 h2 by blast
  have c2': "entries (Set_entry [''b'', ''a''] 3 ''c''
                (flag_of ''c'' (VString ''x'') FlagTypeString) [] two_slot_full) ''a'' = None"
    using c2 by (simp add: two_slot_full_oldest)
  have c3: "Size (Set_entry [''b'', ''a''] 4 ''b'' (flag_of ''b'' (VBool True) FlagTypeBoolean) []
             two_slot_full) = Size two_slot_full"
    using t3 h3 by blast
  from h1 h2 h3 c1 c2 c2' c3 show ?thesis
    by (simp add: two_slot_full_Size)
qed

section \<open>Cache freshness\<close>

lemma Get_Some_iff:
  "Get now c key = Some f
     \<longleftrightarrow> (\<exists>e. entries c key = Some e \<and> Flag e = f \<and> now \<le> ExpiresAt e)"
  by (auto simp add: Get_def split: option.splits)

lemma GetStale_Some_iff:
  "GetStale c key = Some f \<longleftrightarrow> (\<exists>e. entries c key = Some e \<and> Flag e = f)"
  by (auto simp add: GetStale_def split: option.splits)

lemma IsStale_iff:
  "IsStale now c key \<longleftrightarrow> (\<exists>e. entries c key = Some e \<and> ExpiresAt e < now)"
  by (auto simp add: IsStale_def split: option.splits)

lemma short_lived_entries:
  "entries short_lived
     = [''k'' \<mapsto> \<lparr>Flag = flag_of ''k'' (VString ''on'') FlagTypeString, FetchedAt = 0,
                     ExpiresAt = 5\<rparr>]"
  by (simp add: short_lived_def NewCache_def two_slot_config_def Set_entry_def Size_def
      newEntry_def Let_def)

text \<open>
  C6: the code departs from the claim at the instant \<open>now = ExpiresAt\<close>. The entry is not
  fresh (\<open>now < ExpiresAt\<close> is false), yet \<^verbatim>\<open>Get\<close> returns it and \<^verbatim>\<open>IsStale\<close> is false, while
  \<^verbatim>\<open>GetAllValid\<close> leaves it out and \<^verbatim>\<open>Stats\<close> counts it as stale.
\<close>

theorem C6_get_at_expiry:
  "entries short_lived ''k''
     = Some \<lparr>Flag = flag_of ''k'' (VString ''on'') FlagTypeString, FetchedAt = 0,
             ExpiresAt = 5\<rparr>
   \<and> \<not> (5::int) < 5
   \<and> Get 5 short_lived ''k'' = Some (flag_of ''k'' (VString ''on'') FlagTypeString)
   \<and> \<not> IsStale 5 short_lived ''k''
   \<and> GetAllValid [''k''] 5 short_lived = []
   \<and> valid_count (Stats [''k''] 5 short_lived) = 0
   \<and> stale_count (Stats [''k''] 5 short_lived) = 1"
  by (simp add: short_lived_entries Get_def IsStale_def GetAllValid_def Stats_def
      List.map_filter_simps)

section \<open>Evaluation\<close>

lemma evaluate_empty_key:
  "evaluate now stamp c '''' d ctx t = createDefaultResult '''' d ReasonDefault stamp"
  by (simp add: evaluate_def)

lemma evaluate_fresh_mismatch:
  assumes "key \<noteq> ''''" and "Get now (cache c) key = Some cached"
    and "t \<noteq> ''''" and "FlagType cached \<noteq> t"
  shows "evaluate now stamp c key d ctx t = createDefaultResult key d ReasonError stamp"
  using assms by (simp add: evaluate_def)

lemma evaluate_not_found:
  assumes "key \<noteq> ''''" and "entries (cache c) key = None"
    and "Bootstrap (options c) key = None"
  shows "evaluate now stamp c key d ctx t = createDefaultResult key d ReasonFlagNotFound stamp"
  using assms by (simp add: evaluate_def Get_def GetStale_def)

lemma typed_readers_return_default:
  assumes "evaluate now stamp c key (VBool b) ctx FlagTypeBoolean
             = createDefaultResult key (VBool b) reason stamp"
  shows "GetBooleanValue now stamp c key b ctx = b"
  using assms by (simp add: GetBooleanValue_def BoolValue_def createDefaultResult_def)

text \<open>
  C1: the code departs from the claim for a cached flag that has expired. The type check
  that the fresh path makes is missing on the stale path: a boolean read of the expired
  string flag \<open>k\<close> gets the string with reason \<^verbatim>\<open>STALE_CACHE\<close>, and \<^verbatim>\<open>GetBooleanValue\<close>
  with default \<^verbatim>\<open>true\<close> returns \<^verbatim>\<open>false\<close>.
\<close>

theorem C1_stale_type_mismatch:
  "Get 6 (cache stale_client) ''k'' = None
   \<and> GetStale (cache stale_client) ''k''
       = Some (flag_of ''k'' (VString ''on'') FlagTypeString)
   \<and> FlagType (flag_of ''k'' (VString ''on'') FlagTypeString) \<noteq> FlagTypeBoolean
   \<and> evaluate 6 6 stale_client ''k'' (VBool True) None FlagTypeBoolean
       = \<lparr>FlagKey = ''k'', r_Value = VString ''on'', r_Enabled = True,
          Reason = ReasonStaleCache, r_Version = 1, Timestamp = 6\<rparr>
   \<and> GetBooleanValue 6 6 stale_client ''k'' True None = False"
  by (simp add: stale_client_def short_lived_entries Get_def GetStale_def evaluate_def
      GetBooleanValue_def BoolValue_def flag_of_def FlagTypeString_def FlagTypeBoolean_def)

section \<open>Circuit breaker transitions\<close>

lemma transitionTo_simps [simp]:
  "state (transitionTo s cb) = s"
  "failures (transitionTo s cb) = 0"
  "successes (transitionTo s cb) = 0"
  "cb_config (transitionTo s cb) = cb_config cb"
  "lastFailureTime (transitionTo s cb) = lastFailureTime cb"
  "halfOpenAllowed (transitionTo s cb) = halfOpenAllowed cb"
  "halfOpenInProgress (transitionTo s cb) = halfOpenInProgress cb"
  by (simp_all add: transitionTo_def)

lemma RecordFailure_config [simp]: "cb_config (RecordFailure now cb) = cb_config cb"
  by (simp add: RecordFailure_def Let_def split: CircuitState.splits)

lemma RecordSuccess_config [simp]: "cb_config (RecordSuccess cb) = cb_config cb"
  by (simp add: RecordSuccess_def Let_def split: CircuitState.splits)

lemma RecordFailure_closed_below:
  assumes "state cb = CircuitClosed" and "failures cb + 1 < FailureThreshold (cb_config cb)"
  shows "state (RecordFailure now cb) = CircuitClosed"
    and "failures (RecordFailure now cb) = failures cb + 1"
  using assms by (simp_all add: RecordFailure_def Let_def)

lemma RecordFailure_closed_reach:
  assumes "state cb = CircuitClosed" and "failures cb + 1 \<ge> FailureThreshold (cb_config cb)"
  shows "state (RecordFailure now cb) = CircuitOpen"
    and "failures (RecordFailure now cb) = 0"
    and "successes (RecordFailure now cb) = 0"
    and "lastFailureTime (RecordFailure now cb) = now"
  using assms by (simp_all add: RecordFailure_def Let_def)

text \<open>
  Consecutive failures from \<^verbatim>\<open>CLOSED\<close>: as long as fewer than the threshold have been
  counted the breaker stays closed and counts them.
\<close>

lemma failures_stay_closed:
  assumes "state cb = CircuitClosed"
    and "failures cb + int (length ts) < FailureThreshold (cb_config cb)"
  shows "state (fold RecordFailure ts cb) = CircuitClosed
         \<and> failures (fold RecordFailure ts cb) = failures cb + int (length ts)
         \<and> cb_config (fold RecordFailure ts cb) = cb_config cb"
  using assms
proof (induction ts arbitrary: cb)
  case Nil
  then show ?case by simp
next
  case (Cons t ts)
  have below: "failures cb + 1 < FailureThreshold (cb_config cb)"
    using Cons.prems(2) by simp
  have st: "state (RecordFailure t cb) = CircuitClosed"
    and fl: "failures (RecordFailure t cb) = failures cb + 1"
    using RecordFailure_closed_below [OF Cons.prems(1) below] by simp_all
  have "failures (RecordFailure t cb) + int (length ts)
          < FailureThreshold (cb_config (RecordFailure t cb))"
    using Cons.prems(2) fl by simp
  from Cons.IH [OF st this] fl show ?case by simp
qed

lemma failures_open_at_threshold:
  assumes closed: "state cb = CircuitClosed" and zero: "failures cb = 0"
    and len: "int (length ts) + 1 = FailureThreshold (cb_config cb)"
  shows "state (fold RecordFailure (ts @ [t]) cb) = CircuitOpen
         \<and> failures (fold RecordFailure (ts @ [t]) cb) = 0
         \<and> successes (fold RecordFailure (ts @ [t]) cb) = 0
         \<and> lastFailureTime (fold RecordFailure (ts @ [t]) cb) = t"
proof -
  let ?c = "fold RecordFailure ts cb"
  have "failures cb + int (length ts) < FailureThreshold (cb_config cb)"
    using zero len by simp
  from failures_stay_closed [OF closed this]
  have st: "state ?c = CircuitClosed" and fl: "failures ?c = int (length ts)"
    and cf: "cb_config ?c = cb_config cb"
    using zero by simp_all
  have "failures ?c + 1 \<ge> FailureThreshold (cb_config ?c)"
    using fl cf len by simp
  from RecordFailure_closed_reach [OF st this, of t] show ?thesis by simp
qed

lemma Allow_open_early:
  assumes "state cb = CircuitOpen" and "now - lastFailureTime cb < ResetTimeout (cb_config cb)"
  shows "Allow now cb = (False, cb)"
  using assms by (simp add: Allow_def)

lemma Allow_open_elapsed:
  assumes "state cb = CircuitOpen" and "ResetTimeout (cb_config cb) \<le> now - lastFailureTime cb"
    and "1 \<le> HalfOpenMaxAllowed (cb_config cb)"
  shows "fst (Allow now cb)"
    and "state (snd (Allow now cb)) = CircuitHalfOpen"
    and "failures (snd (Allow now cb)) = 0"
    and "successes (snd (Allow now cb)) = 0"
    and "halfOpenAllowed (snd (Allow now cb)) = HalfOpenMaxAllowed (cb_config cb)"
    and "halfOpenInProgress (snd (Allow now cb)) = 1"
  using assms by (simp_all add: Allow_def admitHalfOpen_def)

lemma Allow_half_open_cap:
  assumes "state cb = CircuitHalfOpen"
  shows "fst (Allow now cb) = (halfOpenInProgress cb < halfOpenAllowed cb)"
    and "halfOpenInProgress cb \<le> halfOpenAllowed cb
         \<Longrightarrow> halfOpenInProgress (snd (Allow now cb)) \<le> halfOpenAllowed (snd (Allow now cb))"
    and "state (snd (Allow now cb)) = CircuitHalfOpen"
  using assms by (simp_all add: Allow_def admitHalfOpen_def)

lemma RecordSuccess_half_below:
  assumes "state c = CircuitHalfOpen" and "successes c + 1 < SuccessThreshold (cb_config c)"
  shows "state (RecordSuccess c) = CircuitHalfOpen"
    and "successes (RecordSuccess c) = successes c + 1"
  using assms by (simp_all add: RecordSuccess_def Let_def)

lemma RecordSuccess_half_reach:
  assumes "state c = CircuitHalfOpen" and "SuccessThreshold (cb_config c) \<le> successes c + 1"
  shows "state (RecordSuccess c) = CircuitClosed"
    and "failures (RecordSuccess c) = 0"
    and "successes (RecordSuccess c) = 0"
  using assms by (simp_all add: RecordSuccess_def Let_def)

lemma successes_stay_half_open:
  assumes "state cb = CircuitHalfOpen"
    and "successes cb + int n < SuccessThreshold (cb_config cb)"
  shows "state ((RecordSuccess ^^ n) cb) = CircuitHalfOpen
         \<and> successes ((RecordSuccess ^^ n) cb) = successes cb + int n
         \<and> cb_config ((RecordSuccess ^^ n) cb) = cb_config cb"
  using assms
proof (induction n)
  case 0
  then show ?case by simp
next
  case (Suc n)
  let ?c = "(RecordSuccess ^^ n) cb"
  have "successes cb + int n < SuccessThreshold (cb_config cb)"
    using Suc.prems(2) by simp
  from Suc.IH [OF Suc.prems(1) this]
  have st: "state ?c = CircuitHalfOpen" and su: "successes ?c = successes cb + int n"
    and cf: "cb_config ?c = cb_config cb" by simp_all
  have "successes ?c + 1 < SuccessThreshold (cb_config ?c)"
    using su cf Suc.prems(2) by simp
  from RecordSuccess_half_below [OF st this] su cf show ?case
    by simp
qed

lemma successes_close_at_threshold:
  assumes half: "state cb = CircuitHalfOpen" and zero: "successes cb = 0"
    and len: "int n + 1 = SuccessThreshold (cb_config cb)"
  shows "state ((RecordSuccess ^^ Suc n) cb) = CircuitClosed
         \<and> failures ((RecordSuccess ^^ Suc n) cb) = 0
         \<and> successes ((RecordSuccess ^^ Suc n) cb) = 0"
proof -
  let ?c = "(RecordSuccess ^^ n) cb"
  have "successes cb + int n < SuccessThreshold (cb_config cb)"
    using zero len by simp
  from successes_stay_half_open [OF half this]
  have st: "state ?c = CircuitHalfOpen" and su: "successes ?c = int n"
    and cf: "cb_config ?c = cb_config cb"
    using zero by simp_all
  have "SuccessThreshold (cb_config ?c) \<le> successes ?c + 1"
    using su cf len by simp
  from RecordSuccess_half_reach [OF st this] show ?thesis
    by simp
qed

lemma RecordFailure_half_open:
  assumes "state cb = CircuitHalfOpen"
  shows "state (RecordFailure now cb) = CircuitOpen"
    and "failures (RecordFailure now cb) = 0"
    and "successes (RecordFailure now cb) = 0"
    and "lastFailureTime (RecordFailure now cb) = now"
  using assms by (simp_all add: RecordFailure_def Let_def)

text \<open>Every change of \<^verbatim>\<open>state\<close> goes through \<^verbatim>\<open>transitionTo\<close>, which zeroes both counters.\<close>

lemma counters_reset_on_transition:
  "state (snd (Allow now cb)) \<noteq> state cb \<Longrightarrow>
     failures (snd (Allow now cb)) = 0 \<and> successes (snd (Allow now cb)) = 0"
  "state (RecordSuccess cb) \<noteq> state cb \<Longrightarrow>
     failures (RecordSuccess cb) = 0 \<and> successes (RecordSuccess cb) = 0"
  "state (RecordFailure now cb) \<noteq> state cb \<Longrightarrow>
     failures (RecordFailure now cb) = 0 \<and> successes (RecordFailure now cb) = 0"
  by (auto simp add: Allow_def admitHalfOpen_def RecordSuccess_def RecordFailure_def Let_def
      split: CircuitState.splits if_splits)

lemma Allow_config [simp]: "cb_config (snd (Allow now cb)) = cb_config cb"
  by (simp add: Allow_def admitHalfOpen_def split: CircuitState.splits)

lemma Reset_config [simp]: "cb_config (Reset cb) = cb_config cb"
  by (simp add: Reset_def)

lemma breaker_step_config [simp]: "cb_config (breaker_step call cb) = cb_config cb"
  by (cases call) simp_all

lemma Allow_open_result:
  assumes "state cb = CircuitOpen" and "ResetTimeout (cb_config cb) \<le> now - lastFailureTime cb"
  shows "snd (Allow now cb)
         = cb\<lparr>state := CircuitHalfOpen, failures := 0, successes := 0,
               halfOpenAllowed := HalfOpenMaxAllowed (cb_config cb),
               halfOpenInProgress := (if 1 \<le> HalfOpenMaxAllowed (cb_config cb) then 1 else 0)\<rparr>"
  using assms by (simp add: Allow_def admitHalfOpen_def transitionTo_def)

lemma Allow_half_open_result:
  assumes "state cb = CircuitHalfOpen"
  shows "snd (Allow now cb)
         = (if halfOpenInProgress cb < halfOpenAllowed cb
            then cb\<lparr>halfOpenInProgress := halfOpenInProgress cb + 1\<rparr> else cb)"
  using assms by (simp add: Allow_def admitHalfOpen_def)

lemma breaker_step_inv: "half_open_inv cb \<Longrightarrow> half_open_inv (breaker_step call cb)"
proof (cases call)
  case (CallAllow now)
  assume "half_open_inv cb"
  then show ?thesis
    unfolding CallAllow
    by (cases "state cb")
      (auto simp add: half_open_inv_def Allow_def admitHalfOpen_def transitionTo_def)
next
  case CallSuccess
  assume "half_open_inv cb"
  then show ?thesis
    unfolding CallSuccess
    by (cases "state cb")
      (auto simp add: half_open_inv_def RecordSuccess_def Let_def transitionTo_def)
next
  case (CallFailure now)
  assume "half_open_inv cb"
  then show ?thesis
    unfolding CallFailure
    by (cases "state cb")
      (auto simp add: half_open_inv_def RecordFailure_def Let_def transitionTo_def)
next
  case CallReset
  then show ?thesis by (simp add: half_open_inv_def Reset_def)
qed

lemma breaker_run_inv:
  "half_open_inv cb \<Longrightarrow>
     half_open_inv (breaker_run calls cb) \<and> cb_config (breaker_run calls cb) = cb_config cb"
  unfolding breaker_run_def
proof (induction calls arbitrary: cb)
  case Nil
  then show ?case by simp
next
  case (Cons call calls)
  from Cons.IH [OF breaker_step_inv [OF Cons.prems, of call]] show ?case by simp
qed

lemma NewCircuitBreaker_inv: "half_open_inv (NewCircuitBreaker cfg)"
  by (simp add: half_open_inv_def NewCircuitBreaker_def)

lemma run_from_new:
  "cb_config (breaker_run calls (NewCircuitBreaker cfg)) = cfg"
  "state (breaker_run calls (NewCircuitBreaker cfg)) = CircuitHalfOpen \<Longrightarrow>
     halfOpenAllowed (breaker_run calls (NewCircuitBreaker cfg)) = HalfOpenMaxAllowed cfg
     \<and> halfOpenInProgress (breaker_run calls (NewCircuitBreaker cfg))
         \<le> max 0 (HalfOpenMaxAllowed cfg)
     \<and> fst (Allow now (breaker_run calls (NewCircuitBreaker cfg)))
         = (halfOpenInProgress (breaker_run calls (NewCircuitBreaker cfg))
              < HalfOpenMaxAllowed cfg)"
proof -
  let ?r = "breaker_run calls (NewCircuitBreaker cfg)"
  from breaker_run_inv [OF NewCircuitBreaker_inv, of calls cfg]
  have inv: "half_open_inv ?r" and cf: "cb_config ?r = cfg"
    by (simp_all add: NewCircuitBreaker_def)
  show "cb_config ?r = cfg" by (rule cf)
  assume half: "state ?r = CircuitHalfOpen"
  with inv cf have al: "halfOpenAllowed ?r = HalfOpenMaxAllowed cfg"
    and pr: "halfOpenInProgress ?r \<le> max 0 (HalfOpenMaxAllowed cfg)"
    by (simp_all add: half_open_inv_def)
  from Allow_half_open_cap(1) [OF half, of now] al pr
  show "halfOpenAllowed ?r = HalfOpenMaxAllowed cfg
     \<and> halfOpenInProgress ?r \<le> max 0 (HalfOpenMaxAllowed cfg)
     \<and> fst (Allow now ?r) = (halfOpenInProgress ?r < HalfOpenMaxAllowed cfg)"
    by simp
qed

text \<open>
  C3 as stated fails. With the configuration of the repository's own test (no
  \<^verbatim>\<open>HalfOpenMaxAllowed\<close> given, so 0), two failures open the breaker; 100 ms later the
  reset timeout of 50 ms has elapsed, and \<^verbatim>\<open>Allow\<close> moves to \<^verbatim>\<open>HALF_OPEN\<close> but returns
  false.
\<close>

theorem C3_allow_after_timeout_counterexample:
  "state (fold RecordFailure [0, 0] (NewCircuitBreaker test_breaker_config)) = CircuitOpen
   \<and> ResetTimeout test_breaker_config
        \<le> 100 * Millisecond
            - lastFailureTime (fold RecordFailure [0, 0] (NewCircuitBreaker test_breaker_config))
   \<and> \<not> fst (Allow (100 * Millisecond)
               (fold RecordFailure [0, 0] (NewCircuitBreaker test_breaker_config)))
   \<and> state (snd (Allow (100 * Millisecond)
               (fold RecordFailure [0, 0] (NewCircuitBreaker test_breaker_config))))
       = CircuitHalfOpen"
  by (simp add: NewCircuitBreaker_def test_breaker_config_def RecordFailure_def Let_def
      transitionTo_def Allow_def admitHalfOpen_def Millisecond_def)

text \<open>
  C3 (amended). Starting from \<^verbatim>\<open>CLOSED\<close> with no failure counted and a failure threshold
  of at least 1, the breaker stays \<^verbatim>\<open>CLOSED\<close> below the threshold and is \<^verbatim>\<open>OPEN\<close> after
  exactly \<^verbatim>\<open>FailureThreshold\<close> consecutive \<^verbatim>\<open>RecordFailure\<close> calls; in \<^verbatim>\<open>OPEN\<close>,
  \<^verbatim>\<open>Allow\<close> returns false and changes nothing while less than \<^verbatim>\<open>ResetTimeout\<close> has
  passed since the last failure; once it has passed, \<^verbatim>\<open>Allow\<close> moves to \<^verbatim>\<open>HALF_OPEN\<close>,
  sets the cap \<^verbatim>\<open>halfOpenAllowed\<close> to the configured \<^verbatim>\<open>HalfOpenMaxAllowed\<close> and the calls in
  progress to zero, and admits the call (counting it as in progress) exactly when
  \<^verbatim>\<open>HalfOpenMaxAllowed\<close> is at least 1; in \<^verbatim>\<open>HALF_OPEN\<close> \<^verbatim>\<open>Allow\<close> admits, and counts one
  more call in progress, exactly when fewer than \<^verbatim>\<open>halfOpenAllowed\<close> calls are in progress,
  and changes nothing otherwise; on every breaker made by \<^verbatim>\<open>NewCircuitBreaker\<close> and driven
  by any calls of \<^verbatim>\<open>Allow\<close>, \<^verbatim>\<open>RecordSuccess\<close>, \<^verbatim>\<open>RecordFailure\<close> and \<^verbatim>\<open>Reset\<close>, that cap is
  the configured \<^verbatim>\<open>HalfOpenMaxAllowed\<close> whenever the state is \<^verbatim>\<open>HALF_OPEN\<close>, so that
  \<^verbatim>\<open>Allow\<close> admits exactly when fewer than \<^verbatim>\<open>HalfOpenMaxAllowed\<close> calls are in progress,
  and the calls in progress never exceed it; from \<^verbatim>\<open>HALF_OPEN\<close> with no success counted and a
  success threshold of at least 1, exactly \<^verbatim>\<open>SuccessThreshold\<close> \<^verbatim>\<open>RecordSuccess\<close> calls
  close the breaker; any \<^verbatim>\<open>RecordFailure\<close> in \<^verbatim>\<open>HALF_OPEN\<close> reopens it and refreshes the
  failure time; both counters are zero after every change of state.
\<close>

theorem C3_breaker_transitions:
  "(state cb = CircuitClosed \<and> failures cb = 0
      \<and> int (length ts) + 1 = FailureThreshold (cb_config cb)
    \<longrightarrow> state (fold RecordFailure ts cb) = CircuitClosed
        \<and> state (fold RecordFailure (ts @ [t]) cb) = CircuitOpen
        \<and> failures (fold RecordFailure (ts @ [t]) cb) = 0
        \<and> successes (fold RecordFailure (ts @ [t]) cb) = 0
        \<and> lastFailureTime (fold RecordFailure (ts @ [t]) cb) = t)
   \<and> (state cb = CircuitOpen \<and> now - lastFailureTime cb < ResetTimeout (cb_config cb)
      \<longrightarrow> Allow now cb = (False, cb))
   \<and> (state cb = CircuitOpen \<and> ResetTimeout (cb_config cb) \<le> now - lastFailureTime cb
      \<longrightarrow> state (snd (Allow now cb)) = CircuitHalfOpen
          \<and> failures (snd (Allow now cb)) = 0 \<and> successes (snd (Allow now cb)) = 0
          \<and> fst (Allow now cb) = (1 \<le> HalfOpenMaxAllowed (cb_config cb))
          \<and> snd (Allow now cb)
              = cb\<lparr>state := CircuitHalfOpen, failures := 0, successes := 0,
                    halfOpenAllowed := HalfOpenMaxAllowed (cb_config cb),
                    halfOpenInProgress :=
                      (if 1 \<le> HalfOpenMaxAllowed (cb_config cb) then 1 else 0)\<rparr>)
   \<and> (state cb = CircuitHalfOpen
      \<longrightarrow> fst (Allow now cb) = (halfOpenInProgress cb < halfOpenAllowed cb)
          \<and> state (snd (Allow now cb)) = CircuitHalfOpen
          \<and> snd (Allow now cb)
              = (if halfOpenInProgress cb < halfOpenAllowed cb
                 then cb\<lparr>halfOpenInProgress := halfOpenInProgress cb + 1\<rparr> else cb)
          \<and> (halfOpenInProgress cb \<le> halfOpenAllowed cb
             \<longrightarrow> halfOpenInProgress (snd (Allow now cb)) \<le> halfOpenAllowed (snd (Allow now cb))))
   \<and> (state cb = CircuitHalfOpen \<and> successes cb = 0
        \<and> int n + 1 = SuccessThreshold (cb_config cb)
      \<longrightarrow> state ((RecordSuccess ^^ n) cb) = CircuitHalfOpen
          \<and> state ((RecordSuccess ^^ Suc n) cb) = CircuitClosed
          \<and> failures ((RecordSuccess ^^ Suc n) cb) = 0
          \<and> successes ((RecordSuccess ^^ Suc n) cb) = 0)
   \<and> (state cb = CircuitHalfOpen
      \<longrightarrow> state (RecordFailure now cb) = CircuitOpen
          \<and> failures (RecordFailure now cb) = 0 \<and> successes (RecordFailure now cb) = 0
          \<and> lastFailureTime (RecordFailure now cb) = now)
   \<and> (state (snd (Allow now cb)) \<noteq> state cb
      \<longrightarrow> failures (snd (Allow now cb)) = 0 \<and> successes (snd (Allow now cb)) = 0)
   \<and> (state (RecordSuccess cb) \<noteq> state cb
      \<longrightarrow> failures (RecordSuccess cb) = 0 \<and> successes (RecordSuccess cb) = 0)
   \<and> (state (RecordFailure now cb) \<noteq> state cb
      \<longrightarrow> failures (RecordFailure now cb) = 0 \<and> successes (RecordFailure now cb) = 0)
   \<and> cb_config (breaker_run calls (NewCircuitBreaker cfg)) = cfg
   \<and> (state (breaker_run calls (NewCircuitBreaker cfg)) = CircuitHalfOpen
      \<longrightarrow> halfOpenAllowed (breaker_run calls (NewCircuitBreaker cfg)) = HalfOpenMaxAllowed cfg
          \<and> halfOpenInProgress (breaker_run calls (NewCircuitBreaker cfg))
              \<le> max 0 (HalfOpenMaxAllowed cfg)
          \<and> fst (Allow now (breaker_run calls (NewCircuitBreaker cfg)))
              = (halfOpenInProgress (breaker_run calls (NewCircuitBreaker cfg))
                   < HalfOpenMaxAllowed cfg))"
proof -
  have a: "state cb = CircuitClosed \<and> failures cb = 0
      \<and> int (length ts) + 1 = FailureThreshold (cb_config cb)
    \<longrightarrow> state (fold RecordFailure ts cb) = CircuitClosed
        \<and> state (fold RecordFailure (ts @ [t]) cb) = CircuitOpen
        \<and> failures (fold RecordFailure (ts @ [t]) cb) = 0
        \<and> successes (fold RecordFailure (ts @ [t]) cb) = 0
        \<and> lastFailureTime (fold RecordFailure (ts @ [t]) cb) = t"
  proof (intro impI, elim conjE)
    assume h: "state cb = CircuitClosed" "failures cb = 0"
      "int (length ts) + 1 = FailureThreshold (cb_config cb)"
    have "failures cb + int (length ts) < FailureThreshold (cb_config cb)"
      using h by simp
    from failures_stay_closed [OF h(1) this] failures_open_at_threshold [OF h, of t]
    show "state (fold RecordFailure ts cb) = CircuitClosed
        \<and> state (fold RecordFailure (ts @ [t]) cb) = CircuitOpen
        \<and> failures (fold RecordFailure (ts @ [t]) cb) = 0
        \<and> successes (fold RecordFailure (ts @ [t]) cb) = 0
        \<and> lastFailureTime (fold RecordFailure (ts @ [t]) cb) = t"
      by blast
  qed
  have b: "state cb = CircuitOpen \<and> now - lastFailureTime cb < ResetTimeout (cb_config cb)
      \<longrightarrow> Allow now cb = (False, cb)"
    using Allow_open_early by blast
  have c: "state cb = CircuitOpen \<and> ResetTimeout (cb_config cb) \<le> now - lastFailureTime cb
      \<longrightarrow> state (snd (Allow now cb)) = CircuitHalfOpen
          \<and> failures (snd (Allow now cb)) = 0 \<and> successes (snd (Allow now cb)) = 0
          \<and> fst (Allow now cb) = (1 \<le> HalfOpenMaxAllowed (cb_config cb))
          \<and> snd (Allow now cb)
              = cb\<lparr>state := CircuitHalfOpen, failures := 0, successes := 0,
                    halfOpenAllowed := HalfOpenMaxAllowed (cb_config cb),
                    halfOpenInProgress :=
                      (if 1 \<le> HalfOpenMaxAllowed (cb_config cb) then 1 else 0)\<rparr>"
  proof (intro impI, elim conjE)
    assume h: "state cb = CircuitOpen" "ResetTimeout (cb_config cb) \<le> now - lastFailureTime cb"
    have "fst (Allow now cb) = (1 \<le> HalfOpenMaxAllowed (cb_config cb))"
      using h by (auto simp add: Allow_def admitHalfOpen_def)
    with Allow_open_result [OF h]
    show "state (snd (Allow now cb)) = CircuitHalfOpen
          \<and> failures (snd (Allow now cb)) = 0 \<and> successes (snd (Allow now cb)) = 0
          \<and> fst (Allow now cb) = (1 \<le> HalfOpenMaxAllowed (cb_config cb))
          \<and> snd (Allow now cb)
              = cb\<lparr>state := CircuitHalfOpen, failures := 0, successes := 0,
                    halfOpenAllowed := HalfOpenMaxAllowed (cb_config cb),
                    halfOpenInProgress :=
                      (if 1 \<le> HalfOpenMaxAllowed (cb_config cb) then 1 else 0)\<rparr>"
      by simp
  qed
  have d: "state cb = CircuitHalfOpen
      \<longrightarrow> fst (Allow now cb) = (halfOpenInProgress cb < halfOpenAllowed cb)
          \<and> state (snd (Allow now cb)) = CircuitHalfOpen
          \<and> snd (Allow now cb)
              = (if halfOpenInProgress cb < halfOpenAllowed cb
                 then cb\<lparr>halfOpenInProgress := halfOpenInProgress cb + 1\<rparr> else cb)
          \<and> (halfOpenInProgress cb \<le> halfOpenAllowed cb
             \<longrightarrow> halfOpenInProgress (snd (Allow now cb)) \<le> halfOpenAllowed (snd (Allow now cb)))"
    using Allow_half_open_cap [of cb now] Allow_half_open_result [of cb now] by blast
  have e: "state cb = CircuitHalfOpen \<and> successes cb = 0
        \<and> int n + 1 = SuccessThreshold (cb_config cb)
      \<longrightarrow> state ((RecordSuccess ^^ n) cb) = CircuitHalfOpen
          \<and> state ((RecordSuccess ^^ Suc n) cb) = CircuitClosed
          \<and> failures ((RecordSuccess ^^ Suc n) cb) = 0
          \<and> successes ((RecordSuccess ^^ Suc n) cb) = 0"
  proof (intro impI, elim conjE)
    assume h: "state cb = CircuitHalfOpen" "successes cb = 0"
      "int n + 1 = SuccessThreshold (cb_config cb)"
    have "successes cb + int n < SuccessThreshold (cb_config cb)"
      using h by simp
    from successes_stay_half_open [OF h(1) this] successes_close_at_threshold [OF h]
    show "state ((RecordSuccess ^^ n) cb) = CircuitHalfOpen
          \<and> state ((RecordSuccess ^^ Suc n) cb) = CircuitClosed
          \<and> failures ((RecordSuccess ^^ Suc n) cb) = 0
          \<and> successes ((RecordSuccess ^^ Suc n) cb) = 0"
      by blast
  qed
  have f: "state cb = CircuitHalfOpen
      \<longrightarrow> state (RecordFailure now cb) = CircuitOpen
          \<and> failures (RecordFailure now cb) = 0 \<and> successes (RecordFailure now cb) = 0
          \<and> lastFailureTime (RecordFailure now cb) = now"
    using RecordFailure_half_open [of cb now] by blast
  have g: "(state (snd (Allow now cb)) \<noteq> state cb
      \<longrightarrow> failures (snd (Allow now cb)) = 0 \<and> successes (snd (Allow now cb)) = 0)
   \<and> (state (RecordSuccess cb) \<noteq> state cb
      \<longrightarrow> failures (RecordSuccess cb) = 0 \<and> successes (RecordSuccess cb) = 0)
   \<and> (state (RecordFailure now cb) \<noteq> state cb
      \<longrightarrow> failures (RecordFailure now cb) = 0 \<and> successes (RecordFailure now cb) = 0)"
    using counters_reset_on_transition by blast
  have h: "cb_config (breaker_run calls (NewCircuitBreaker cfg)) = cfg
   \<and> (state (breaker_run calls (NewCircuitBreaker cfg)) = CircuitHalfOpen
      \<longrightarrow> halfOpenAllowed (breaker_run calls (NewCircuitBreaker cfg)) = HalfOpenMaxAllowed cfg
          \<and> halfOpenInProgress (breaker_run calls (NewCircuitBreaker cfg))
              \<le> max 0 (HalfOpenMaxAllowed cfg)
          \<and> fst (Allow now (breaker_run calls (NewCircuitBreaker cfg)))
              = (halfOpenInProgress (breaker_run calls (NewCircuitBreaker cfg))
                   < HalfOpenMaxAllowed cfg))"
    using run_from_new(1) [of calls cfg] run_from_new(2) [of calls cfg now] by blast
  from a b c d e f g h show ?thesis by blast
qed

lemma probe_closed_eq:
  "probe_closed =
     \<lparr>cb_config = probe_breaker_config, state = CircuitClosed, failures = 0, successes = 0,
      lastFailureTime = 0, halfOpenAllowed = 0, halfOpenInProgress = 0\<rparr>"
  by (simp add: probe_closed_def NewCircuitBreaker_def)

lemma probe_open_eq:
  "probe_open =
     \<lparr>cb_config = probe_breaker_config, state = CircuitOpen, failures = 0, successes = 0,
      lastFailureTime = 10 * Millisecond, halfOpenAllowed = 0, halfOpenInProgress = 0\<rparr>"
  by (simp add: probe_open_def probe_closed_eq RecordFailure_def Let_def transitionTo_def
      probe_breaker_config_def)

lemma probe_half_open_eq:
  "probe_half_open =
     \<lparr>cb_config = probe_breaker_config, state = CircuitHalfOpen, failures = 0, successes = 0,
      lastFailureTime = 10 * Millisecond, halfOpenAllowed = 1, halfOpenInProgress = 1\<rparr>"
  by (simp add: probe_half_open_def probe_open_eq Allow_def admitHalfOpen_def transitionTo_def
      probe_breaker_config_def Millisecond_def)

theorem C3_breaker_transitions_witness:
  "state probe_closed = CircuitClosed \<and> failures probe_closed = 0
   \<and> int (length [0::int]) + 1 = FailureThreshold (cb_config probe_closed)
   \<and> state (fold RecordFailure [0] probe_closed) = CircuitClosed
   \<and> state (fold RecordFailure ([0] @ [10 * Millisecond]) probe_closed) = CircuitOpen
   \<and> state probe_open = CircuitOpen
   \<and> 20 * Millisecond - lastFailureTime probe_open < ResetTimeout (cb_config probe_open)
   \<and> Allow (20 * Millisecond) probe_open = (False, probe_open)
   \<and> ResetTimeout (cb_config probe_open) \<le> 100 * Millisecond - lastFailureTime probe_open
   \<and> 1 \<le> HalfOpenMaxAllowed (cb_config probe_open)
   \<and> fst (Allow (100 * Millisecond) probe_open)
   \<and> state probe_half_open = CircuitHalfOpen \<and> successes probe_half_open = 0
   \<and> int 0 + 1 = SuccessThreshold (cb_config probe_half_open)
   \<and> halfOpenInProgress probe_half_open \<le> halfOpenAllowed probe_half_open
   \<and> \<not> fst (Allow (110 * Millisecond) probe_half_open)
   \<and> state ((RecordSuccess ^^ Suc 0) probe_half_open) = CircuitClosed
   \<and> state (RecordFailure (120 * Millisecond) probe_half_open) = CircuitOpen
   \<and> state (RecordFailure (120 * Millisecond) probe_half_open) \<noteq> state probe_half_open
   \<and> failures (RecordFailure (120 * Millisecond) probe_half_open) = 0
   \<and> snd (Allow (100 * Millisecond) probe_open) = probe_half_open
   \<and> breaker_run probe_calls (NewCircuitBreaker probe_breaker_config) = probe_half_open
   \<and> halfOpenAllowed (breaker_run probe_calls (NewCircuitBreaker probe_breaker_config)) = 1
   \<and> \<not> fst (Allow (110 * Millisecond)
               (breaker_run probe_calls (NewCircuitBreaker probe_breaker_config)))"
proof -
  have h1: "state probe_closed = CircuitClosed \<and> failures probe_closed = 0
      \<and> int (length [0::int]) + 1 = FailureThreshold (cb_config probe_closed)"
    by (simp add: probe_closed_eq probe_breaker_config_def)
  have h2: "state probe_open = CircuitOpen
      \<and> 20 * Millisecond - lastFailureTime probe_open < ResetTimeout (cb_config probe_open)"
    by (simp add: probe_open_eq probe_breaker_config_def Millisecond_def)
  have h3: "state probe_open = CircuitOpen
      \<and> ResetTimeout (cb_config probe_open) \<le> 100 * Millisecond - lastFailureTime probe_open"
    and h3': "1 \<le> HalfOpenMaxAllowed (cb_config probe_open)"
    by (simp_all add: probe_open_eq probe_breaker_config_def Millisecond_def)
  have h4: "state probe_half_open = CircuitHalfOpen \<and> successes probe_half_open = 0
      \<and> int 0 + 1 = SuccessThreshold (cb_config probe_half_open)"
    and h4': "halfOpenInProgress probe_half_open \<le> halfOpenAllowed probe_half_open"
      "\<not> halfOpenInProgress probe_half_open < halfOpenAllowed probe_half_open"
    by (simp_all add: probe_half_open_eq probe_breaker_config_def)
  note t1 = C3_breaker_transitions [where cb = probe_closed and ts = "[0]"
      and t = "10 * Millisecond"]
  note t2 = C3_breaker_transitions [where cb = probe_open and now = "20 * Millisecond"]
  note t3 = C3_breaker_transitions [where cb = probe_open and now = "100 * Millisecond"]
  note t4 = C3_breaker_transitions [where cb = probe_half_open and now = "110 * Millisecond"
      and n = 0]
  note t5 = C3_breaker_transitions [where cb = probe_half_open and now = "120 * Millisecond"]
  have c1: "state (fold RecordFailure [0] probe_closed) = CircuitClosed
      \<and> state (fold RecordFailure ([0] @ [10 * Millisecond]) probe_closed) = CircuitOpen"
    using t1 h1 by blast
  have c2: "Allow (20 * Millisecond) probe_open = (False, probe_open)"
    using t2 h2 by blast
  have c3: "fst (Allow (100 * Millisecond) probe_open)"
    using t3 h3 h3' by blast
  have c4: "\<not> fst (Allow (110 * Millisecond) probe_half_open)
      \<and> state ((RecordSuccess ^^ Suc 0) probe_half_open) = CircuitClosed"
    using t4 h4 h4' by blast
  have c5: "state (RecordFailure (120 * Millisecond) probe_half_open) = CircuitOpen
      \<and> failures (RecordFailure (120 * Millisecond) probe_half_open) = 0"
    using t5 h4 by blast
  have c6: "state (RecordFailure (120 * Millisecond) probe_half_open) \<noteq> state probe_half_open"
    using c5 h4 by simp
  have run: "breaker_run probe_calls (NewCircuitBreaker probe_breaker_config) = probe_half_open"
    by (simp add: breaker_run_def probe_calls_def probe_half_open_def probe_open_def
        probe_closed_def)
  have cap: "HalfOpenMaxAllowed probe_breaker_config = 1"
    by (simp add: probe_breaker_config_def)
  have pr: "halfOpenInProgress probe_half_open = 1"
    by (simp add: probe_half_open_eq)
  note t6 = C3_breaker_transitions [where calls = probe_calls and cfg = probe_breaker_config
      and now = "110 * Millisecond", unfolded run cap]
  have c7: "halfOpenAllowed probe_half_open = 1
      \<and> \<not> fst (Allow (110 * Millisecond) probe_half_open)"
    using t6 h4 pr by simp
  have c8: "snd (Allow (100 * Millisecond) probe_open) = probe_half_open"
    by (simp add: probe_half_open_def)
  from h1 h2 h3 h3' h4 h4' c1 c2 c3 c4 c5 c6 c7 c8 run show ?thesis by simp
qed

section \<open>Bootstrap verification\<close>

lemma Milliseconds_exceeds:
  assumes "0 < M"
  shows "Milliseconds M < age \<longleftrightarrow> M < age * Millisecond"
  using assms unfolding Milliseconds_def Millisecond_def by auto

lemma signature_invalid_not_recoverable [simp]:
  "isRecoverable ErrSecuritySignatureInvalid = False"
  by (simp add: isRecoverable_def ErrSecuritySignatureInvalid_def ErrNetworkError_def
      ErrNetworkTimeout_def ErrNetworkRetryLimit_def ErrCircuitOpen_def ErrCacheExpired_def
      ErrEvalStaleValue_def ErrEvalCacheMiss_def ErrEvalNetworkError_def ErrEventSendFailed_def)

lemma verify_disabled:
  "\<not> bv_Enabled config \<Longrightarrow> VerifyBootstrapSignature std now b apiKey config = (True, None)"
  by (simp add: VerifyBootstrapSignature_def)

lemma verify_unsigned:
  "Signature b = '''' \<Longrightarrow> VerifyBootstrapSignature std now b apiKey config = (True, None)"
  by (simp add: VerifyBootstrapSignature_def)

lemma verify_expired:
  assumes "bv_Enabled config" and "Signature b \<noteq> ''''"
    and "0 < MaxAge config" and "0 < b_Timestamp b"
    and "MaxAge config < (now - b_Timestamp b) * Millisecond"
  shows "\<not> fst (VerifyBootstrapSignature std now b apiKey config)"
    and "\<exists>msg. snd (VerifyBootstrapSignature std now b apiKey config)
            = Some (FlagKitError ErrSecuritySignatureInvalid msg None False)"
proof -
  have "Milliseconds (MaxAge config) < now - b_Timestamp b"
    using assms(3,5) by (simp add: Milliseconds_exceeds)
  then show "\<not> fst (VerifyBootstrapSignature std now b apiKey config)"
    and "\<exists>msg. snd (VerifyBootstrapSignature std now b apiKey config)
            = Some (FlagKitError ErrSecuritySignatureInvalid msg None False)"
    using assms(1-4)
    by (simp_all add: VerifyBootstrapSignature_def Let_def errors_NewError_def)
qed

lemma verify_future:
  assumes "bv_Enabled config" and "Signature b \<noteq> ''''"
    and "0 < MaxAge config" and "0 < b_Timestamp b"
    and "300000 < b_Timestamp b - now"
  shows "\<not> fst (VerifyBootstrapSignature std now b apiKey config)"
    and "\<exists>msg. snd (VerifyBootstrapSignature std now b apiKey config)
            = Some (FlagKitError ErrSecuritySignatureInvalid msg None False)"
  using assms
  by (simp_all add: VerifyBootstrapSignature_def Let_def errors_NewError_def)

lemma verify_signature:
  assumes "bv_Enabled config" and "Signature b \<noteq> ''''"
    and "\<not> (0 < MaxAge config \<and> 0 < b_Timestamp b
            \<and> (MaxAge config < (now - b_Timestamp b) * Millisecond
                \<or> 300000 < b_Timestamp b - now))"
  shows "fst (VerifyBootstrapSignature std now b apiKey config)
         \<longleftrightarrow> (\<exists>canonical. CanonicalizeObject std (Flags b) = Inr canonical
                \<and> Signature b
                   = GenerateHMACSHA256 std (FormatInt (b_Timestamp b) @ ''.'' @ canonical)
                       apiKey)"
    and "\<not> fst (VerifyBootstrapSignature std now b apiKey config)
         \<longrightarrow> (\<exists>msg cause. snd (VerifyBootstrapSignature std now b apiKey config)
                = Some (FlagKitError ErrSecuritySignatureInvalid msg cause False))"
proof -
  have pass: "\<not> (0 < MaxAge config \<and> 0 < b_Timestamp b
                  \<and> Milliseconds (MaxAge config) < now - b_Timestamp b)"
    and pass': "\<not> (0 < MaxAge config \<and> 0 < b_Timestamp b \<and> now - b_Timestamp b < - 300000)"
    using assms(3) Milliseconds_exceeds [of "MaxAge config" "now - b_Timestamp b"] by auto
  have unfold: "VerifyBootstrapSignature std now b apiKey config
      = (case CanonicalizeObject std (Flags b) of
           Inl err \<Rightarrow>
             (False, Some (errors_NewErrorWithCause ErrSecuritySignatureInvalid
                ''failed to canonicalize bootstrap flags'' (Some err)))
         | Inr canonical \<Rightarrow>
             if Signature b
                \<noteq> GenerateHMACSHA256 std (FormatInt (b_Timestamp b) @ ''.'' @ canonical) apiKey
             then (False, Some (errors_NewError ErrSecuritySignatureInvalid
                     ''bootstrap signature verification failed: signature mismatch''))
             else (True, None))"
    using assms(1,2) pass pass'
    by (auto simp add: VerifyBootstrapSignature_def Let_def split: sum.splits)
  show "fst (VerifyBootstrapSignature std now b apiKey config)
         \<longleftrightarrow> (\<exists>canonical. CanonicalizeObject std (Flags b) = Inr canonical
                \<and> Signature b
                   = GenerateHMACSHA256 std (FormatInt (b_Timestamp b) @ ''.'' @ canonical)
                       apiKey)"
    by (simp add: unfold split: sum.splits)
  show "\<not> fst (VerifyBootstrapSignature std now b apiKey config)
         \<longrightarrow> (\<exists>msg cause. snd (VerifyBootstrapSignature std now b apiKey config)
                = Some (FlagKitError ErrSecuritySignatureInvalid msg cause False))"
    by (simp add: unfold errors_NewError_def errors_NewErrorWithCause_def split: sum.splits)
qed

lemma verify_accept_no_error:
  "fst (VerifyBootstrapSignature std now b apiKey config)
   \<Longrightarrow> snd (VerifyBootstrapSignature std now b apiKey config) = None"
  by (auto simp add: VerifyBootstrapSignature_def Let_def split: sum.splits if_splits)

text \<open>
  C7. \<^verbatim>\<open>VerifyBootstrapSignature\<close> accepts when verification is disabled and when the
  signature is empty. With verification on and a signature present, if \<^verbatim>\<open>MaxAge > 0\<close> and
  the timestamp is positive it rejects when \<open>now - timestamp\<close> exceeds \<^verbatim>\<open>MaxAge\<close> and when
  the timestamp is more than 5 minutes (300000 ms) ahead of \<open>now\<close>. Otherwise it accepts
  exactly when the flags canonicalize and the signature equals the HMAC of
  \<open>timestamp . canonical\<close> under the API key. Every rejection carries a
  \<^verbatim>\<open>SECURITY_SIGNATURE_INVALID\<close> error, and an acceptance carries none.
\<close>

theorem C7_verify_bootstrap:
  "(\<not> bv_Enabled config \<longrightarrow> VerifyBootstrapSignature std now b apiKey config = (True, None))
   \<and> (Signature b = '''' \<longrightarrow> VerifyBootstrapSignature std now b apiKey config = (True, None))
   \<and> (bv_Enabled config \<and> Signature b \<noteq> '''' \<and> 0 < MaxAge config \<and> 0 < b_Timestamp b
        \<and> (MaxAge config < (now - b_Timestamp b) * Millisecond
            \<or> 5 * Minute < (b_Timestamp b - now) * Millisecond)
      \<longrightarrow> \<not> fst (VerifyBootstrapSignature std now b apiKey config)
          \<and> (\<exists>msg. snd (VerifyBootstrapSignature std now b apiKey config)
                = Some (FlagKitError ErrSecuritySignatureInvalid msg None False)))
   \<and> (bv_Enabled config \<and> Signature b \<noteq> ''''
        \<and> \<not> (0 < MaxAge config \<and> 0 < b_Timestamp b
              \<and> (MaxAge config < (now - b_Timestamp b) * Millisecond
                  \<or> 5 * Minute < (b_Timestamp b - now) * Millisecond))
      \<longrightarrow> (fst (VerifyBootstrapSignature std now b apiKey config)
           \<longleftrightarrow> (\<exists>canonical. CanonicalizeObject std (Flags b) = Inr canonical
                  \<and> Signature b
                     = GenerateHMACSHA256 std (FormatInt (b_Timestamp b) @ ''.'' @ canonical)
                         apiKey))
          \<and> (\<not> fst (VerifyBootstrapSignature std now b apiKey config)
             \<longrightarrow> (\<exists>msg cause. snd (VerifyBootstrapSignature std now b apiKey config)
                    = Some (FlagKitError ErrSecuritySignatureInvalid msg cause False))))
   \<and> (fst (VerifyBootstrapSignature std now b apiKey config)
      \<longrightarrow> snd (VerifyBootstrapSignature std now b apiKey config) = None)"
proof -
  have skew: "5 * Minute < (b_Timestamp b - now) * Millisecond \<longleftrightarrow> 300000 < b_Timestamp b - now"
  proof -
    have m: "5 * Minute = 300000 * Millisecond"
      by (simp add: Minute_def Second_def)
    have pos: "0 < Millisecond" by (simp add: Millisecond_def)
    show ?thesis
      unfolding m using pos by (rule mult_less_cancel_right_pos)
  qed
  show ?thesis
    unfolding skew
    using verify_disabled [of config std now b apiKey] verify_unsigned [of b std now apiKey config]
      verify_expired [of config b now std apiKey] verify_future [of config b now std apiKey]
      verify_signature [of config b now std apiKey]
      verify_accept_no_error [of std now b apiKey config]
    by blast
qed

lemma sample_canonical:
  "CanonicalizeObject toy_std sample_flags
     = Inr (''{'' @ [CHR 0x22] @ ''a'' @ [CHR 0x22] @ '':1,''
           @ [CHR 0x22] @ ''b'' @ [CHR 0x22] @ '':'' @ [CHR 0x22] @ ''x'' @ [CHR 0x22] @ ''}'')"
  by (simp add: CanonicalizeObject_def sample_flags_def toy_std_def FormatInt_def
      less_eq_char_def)

lemma signed_sample_fields:
  "Flags signed_sample = sample_flags"
  "b_Timestamp signed_sample = 1700000000000"
  "Signature signed_sample \<noteq> ''''"
  "Signature signed_sample
     = GenerateHMACSHA256 toy_std
         (FormatInt (b_Timestamp signed_sample) @ ''.''
          @ (''{'' @ [CHR 0x22] @ ''a'' @ [CHR 0x22] @ '':1,''
             @ [CHR 0x22] @ ''b'' @ [CHR 0x22] @ '':'' @ [CHR 0x22] @ ''x'' @ [CHR 0x22] @ ''}''))
         sample_key"
  by (simp_all add: signed_sample_def GenerateHMACSHA256_def toy_std_def)

lemma tampered_sample_fields:
  "Flags tampered_sample = sample_flags"
  "b_Timestamp tampered_sample = 1700000000000"
  "Signature tampered_sample = ''forged''"
  "Signature tampered_sample
     \<noteq> GenerateHMACSHA256 toy_std (FormatInt (b_Timestamp tampered_sample) @ ''.'' @ c)
         sample_key"
  by (simp_all add: tampered_sample_def signed_sample_def GenerateHMACSHA256_def toy_std_def)

lemma day_config_fields:
  "bv_Enabled day_config" "MaxAge day_config = 86400000 * Millisecond"
  by (simp_all add: day_config_def Minute_def Second_def)

theorem C7_verify_bootstrap_witness:
  "\<not> bv_Enabled disabled_config
   \<and> VerifyBootstrapSignature toy_std 1700000001000 tampered_sample sample_key disabled_config
       = (True, None)
   \<and> Signature unsigned_sample = ''''
   \<and> VerifyBootstrapSignature toy_std 1700000001000 unsigned_sample sample_key day_config
       = (True, None)
   \<and> bv_Enabled day_config \<and> Signature signed_sample \<noteq> '''' \<and> 0 < MaxAge day_config
   \<and> 0 < b_Timestamp signed_sample
   \<and> MaxAge day_config < (1700172800000 - b_Timestamp signed_sample) * Millisecond
   \<and> \<not> fst (VerifyBootstrapSignature toy_std 1700172800000 signed_sample sample_key day_config)
   \<and> 5 * Minute < (b_Timestamp signed_sample - 1699999400000) * Millisecond
   \<and> \<not> fst (VerifyBootstrapSignature toy_std 1699999400000 signed_sample sample_key day_config)
   \<and> \<not> MaxAge day_config < (1700000001000 - b_Timestamp signed_sample) * Millisecond
   \<and> \<not> 5 * Minute < (b_Timestamp signed_sample - 1700000001000) * Millisecond
   \<and> fst (VerifyBootstrapSignature toy_std 1700000001000 signed_sample sample_key day_config)
   \<and> snd (VerifyBootstrapSignature toy_std 1700000001000 signed_sample sample_key day_config)
       = None
   \<and> Signature tampered_sample \<noteq> ''''
   \<and> \<not> fst (VerifyBootstrapSignature toy_std 1700000001000 tampered_sample sample_key
              day_config)"
proof -
  have h1: "\<not> bv_Enabled disabled_config" by (simp add: disabled_config_def)
  have h2: "Signature unsigned_sample = ''''" by (simp add: unsigned_sample_def)
  have h3: "bv_Enabled day_config \<and> Signature signed_sample \<noteq> '''' \<and> 0 < MaxAge day_config
      \<and> 0 < b_Timestamp signed_sample"
    by (simp add: day_config_fields signed_sample_fields(1-3) Millisecond_def)
  have old: "MaxAge day_config < (1700172800000 - b_Timestamp signed_sample) * Millisecond"
    by (simp add: day_config_fields signed_sample_fields(2) Millisecond_def)
  have ahead: "5 * Minute < (b_Timestamp signed_sample - 1699999400000) * Millisecond"
    by (simp add: signed_sample_fields(2) Minute_def Second_def Millisecond_def)
  have inside: "\<not> MaxAge day_config < (1700000001000 - b_Timestamp signed_sample) * Millisecond"
    "\<not> 5 * Minute < (b_Timestamp signed_sample - 1700000001000) * Millisecond"
    by (simp_all add: day_config_fields signed_sample_fields(2) Minute_def Second_def
        Millisecond_def)
  have h4: "bv_Enabled day_config \<and> Signature tampered_sample \<noteq> '''' \<and> 0 < MaxAge day_config
      \<and> 0 < b_Timestamp tampered_sample"
    by (simp add: day_config_fields tampered_sample_fields(1-3) Millisecond_def)
  have inside': "\<not> MaxAge day_config
                   < (1700000001000 - b_Timestamp tampered_sample) * Millisecond"
    "\<not> 5 * Minute < (b_Timestamp tampered_sample - 1700000001000) * Millisecond"
    by (simp_all add: day_config_fields tampered_sample_fields(2) Minute_def Second_def
        Millisecond_def)
  have good: "\<exists>canonical. CanonicalizeObject toy_std (Flags signed_sample) = Inr canonical
      \<and> Signature signed_sample
         = GenerateHMACSHA256 toy_std
             (FormatInt (b_Timestamp signed_sample) @ ''.'' @ canonical) sample_key"
    using sample_canonical signed_sample_fields(1,4) by (intro exI conjI) simp_all
  have bad: "\<not> (\<exists>canonical. CanonicalizeObject toy_std (Flags tampered_sample) = Inr canonical
      \<and> Signature tampered_sample
         = GenerateHMACSHA256 toy_std
             (FormatInt (b_Timestamp tampered_sample) @ ''.'' @ canonical) sample_key)"
    using tampered_sample_fields(4) by blast
  note t1 = C7_verify_bootstrap [where config = disabled_config and std = toy_std
      and now = 1700000001000 and b = tampered_sample and apiKey = sample_key]
  note t2 = C7_verify_bootstrap [where config = day_config and std = toy_std
      and now = 1700000001000 and b = unsigned_sample and apiKey = sample_key]
  note t3 = C7_verify_bootstrap [where config = day_config and std = toy_std
      and now = 1700172800000 and b = signed_sample and apiKey = sample_key]
  note t4 = C7_verify_bootstrap [where config = day_config and std = toy_std
      and now = 1699999400000 and b = signed_sample and apiKey = sample_key]
  note t5 = C7_verify_bootstrap [where config = day_config and std = toy_std
      and now = 1700000001000 and b = signed_sample and apiKey = sample_key]
  note t6 = C7_verify_bootstrap [where config = day_config and std = toy_std
      and now = 1700000001000 and b = tampered_sample and apiKey = sample_key]
  have c1: "VerifyBootstrapSignature toy_std 1700000001000 tampered_sample sample_key
      disabled_config = (True, None)"
    using t1 h1 by blast
  have c2: "VerifyBootstrapSignature toy_std 1700000001000 unsigned_sample sample_key day_config
      = (True, None)"
    using t2 h2 by blast
  have c3: "\<not> fst (VerifyBootstrapSignature toy_std 1700172800000 signed_sample sample_key
      day_config)"
    using t3 h3 old by blast
  have c4: "\<not> fst (VerifyBootstrapSignature toy_std 1699999400000 signed_sample sample_key
      day_config)"
    using t4 h3 ahead by blast
  have c5: "fst (VerifyBootstrapSignature toy_std 1700000001000 signed_sample sample_key
      day_config)"
    using t5 h3 inside good by blast
  have c5': "snd (VerifyBootstrapSignature toy_std 1700000001000 signed_sample sample_key
      day_config) = None"
    using t5 c5 by blast
  have c6: "\<not> fst (VerifyBootstrapSignature toy_std 1700000001000 tampered_sample sample_key
      day_config)"
    using t6 h4 inside' bad by blast
  from h1 h2 h3 h4 old ahead inside c1 c2 c3 c4 c5 c5' c6 show ?thesis by blast
qed

section \<open>Encrypted cache storage\<close>

lemma Set_on_encrypt_failure:
  assumes "Encrypt env rand_iv (storage c) v = Returns (Inl err)"
  shows "EncryptedCacheStorage_Set env rand_iv key v c
         = Returns (Some err, c\<lparr>ecs_cache := (ecs_cache c)(key \<mapsto> v)\<rparr>)"
  using assms by (simp add: EncryptedCacheStorage_Set_def)

lemma Get_stored:
  assumes "ecs_cache c key = Some s"
  shows "EncryptedCacheStorage_Get env key c
         = (if IsEncrypted env s then Decrypt env (storage c) s else Returns (Inr s))"
  using assms by (simp add: EncryptedCacheStorage_Get_def)

text \<open>
  \<^verbatim>\<open>Decrypt\<close> of a version 1 envelope whose IV decodes to other than 12 bytes: \<^verbatim>\<open>gcm.Open\<close>
  panics, and \<^verbatim>\<open>Decrypt\<close> has no length check before it.
\<close>

lemma Decrypt_panics:
  assumes "derivedKey s = Some dk" and "aes_key_ok dk"
    and "unmarshal_EncryptedData env v = Inr e" and "ed_Version e = EncryptionVersion"
    and "b64_decode env (IV e) = Inr iv" and "b64_decode env (Data e) = Inr data"
    and "length iv \<noteq> ivLength"
  shows "Decrypt env s v = Panics ''crypto/cipher: incorrect nonce length given to GCM''"
  using assms by (simp add: Decrypt_def aes_NewCipher_def gcm_Open_def ivLength_def)

lemma Decrypt_other_version:
  assumes "derivedKey s = Some dk"
    and "unmarshal_EncryptedData env v = Inr e" and "ed_Version e \<noteq> EncryptionVersion"
  shows "Decrypt env s v
         = Returns (Inl (SecurityError ErrSecurityDecryptionFailed
                           ''unsupported encryption version''))"
  using assms by (simp add: Decrypt_def)

lemma toy_encrypt_fails:
  "Encrypt toy_crypto no_entropy (storage empty_store) v = Returns (Inl iv_failure)"
  by (simp add: Encrypt_def empty_store_def aes_NewCipher_def aes_key_ok_def no_entropy_def
      iv_failure_def)

lemma envelopes_differ: "marshal_EncryptedData envelope_v1 \<noteq> marshal_EncryptedData envelope_v2"
  by (simp add: marshal_EncryptedData_def envelope_v1_def envelope_v2_def FormatInt_def)

lemma toy_unmarshal:
  "unmarshal_EncryptedData toy_crypto (marshal_EncryptedData envelope_v2) = Inr envelope_v2"
  "unmarshal_EncryptedData toy_crypto (marshal_EncryptedData envelope_v1) = Inr envelope_v1"
  "unmarshal_EncryptedData toy_crypto ''plain'' = Inl ''invalid character''"
  using envelopes_differ
  by (simp_all add: toy_crypto_def marshal_EncryptedData_def json_quoted_def)

lemma toy_envelope_v2_encrypted: "IsEncrypted toy_crypto (marshal_EncryptedData envelope_v2)"
  by (simp add: IsEncrypted_def toy_unmarshal) (simp add: envelope_v2_def)

lemma toy_envelope_v1_encrypted: "IsEncrypted toy_crypto (marshal_EncryptedData envelope_v1)"
  by (simp add: IsEncrypted_def toy_unmarshal) (simp add: envelope_v1_def)

lemma toy_plain_not_encrypted: "\<not> IsEncrypted toy_crypto ''plain''"
  by (simp add: IsEncrypted_def toy_unmarshal)

lemma toy_decode:
  "b64_decode toy_crypto (IV envelope_v1) = Inr ''a''"
  "b64_decode toy_crypto (Data envelope_v1) = Inr ''b''"
  by (simp_all add: toy_crypto_def envelope_v1_def)

lemma empty_store_key:
  "derivedKey (storage empty_store) = Some (replicate 32 (CHR ''k''))"
  "aes_key_ok (replicate 32 (CHR ''k''))"
  by (simp_all add: empty_store_def aes_key_ok_def)

lemma toy_decrypt:
  "Decrypt toy_crypto (storage empty_store) (marshal_EncryptedData envelope_v2)
   = Returns (Inl (SecurityError ErrSecurityDecryptionFailed ''unsupported encryption version''))"
  "Decrypt toy_crypto (storage empty_store) (marshal_EncryptedData envelope_v1)
   = Panics ''crypto/cipher: incorrect nonce length given to GCM''"
proof -
  show "Decrypt toy_crypto (storage empty_store) (marshal_EncryptedData envelope_v2)
   = Returns (Inl (SecurityError ErrSecurityDecryptionFailed ''unsupported encryption version''))"
    by (rule Decrypt_other_version [OF empty_store_key(1) toy_unmarshal(1)])
      (simp add: envelope_v2_def EncryptionVersion_def)
  show "Decrypt toy_crypto (storage empty_store) (marshal_EncryptedData envelope_v1)
   = Panics ''crypto/cipher: incorrect nonce length given to GCM''"
    by (rule Decrypt_panics [OF empty_store_key toy_unmarshal(2) _ toy_decode])
      (simp_all add: envelope_v1_def EncryptionVersion_def ivLength_def)
qed

text \<open>
  C10 as stated fails when the plaintext itself has the shape of an envelope. The random
  source cannot be read, so \<^verbatim>\<open>Set\<close> stores the value as it is and returns the error.
  When the value is the JSON text of an envelope with version 2, \<^verbatim>\<open>Get\<close> then classifies
  the stored string as encrypted and returns the error of \<^verbatim>\<open>Decrypt\<close>, not the plaintext;
  when it is that of an envelope with version 1 whose IV is one byte, \<^verbatim>\<open>Get\<close> does not
  return at all: \<^verbatim>\<open>gcm.Open\<close> panics on the nonce.
\<close>

theorem C10_envelope_shaped_plaintext_counterexample:
  "EncryptedCacheStorage_Set toy_crypto no_entropy ''k'' (marshal_EncryptedData envelope_v2)
     empty_store
     = Returns (Some iv_failure,
                empty_store\<lparr>ecs_cache := [''k'' \<mapsto> marshal_EncryptedData envelope_v2]\<rparr>)
   \<and> IsEncrypted toy_crypto (marshal_EncryptedData envelope_v2)
   \<and> EncryptedCacheStorage_Get toy_crypto ''k''
        (empty_store\<lparr>ecs_cache := [''k'' \<mapsto> marshal_EncryptedData envelope_v2]\<rparr>)
       = Returns (Inl (SecurityError ErrSecurityDecryptionFailed
                         ''unsupported encryption version''))
   \<and> EncryptedCacheStorage_Set toy_crypto no_entropy ''k'' (marshal_EncryptedData envelope_v1)
       empty_store
     = Returns (Some iv_failure,
                empty_store\<lparr>ecs_cache := [''k'' \<mapsto> marshal_EncryptedData envelope_v1]\<rparr>)
   \<and> IsEncrypted toy_crypto (marshal_EncryptedData envelope_v1)
   \<and> EncryptedCacheStorage_Get toy_crypto ''k''
        (empty_store\<lparr>ecs_cache := [''k'' \<mapsto> marshal_EncryptedData envelope_v1]\<rparr>)
       = Panics ''crypto/cipher: incorrect nonce length given to GCM''"
proof -
  have e: "ecs_cache empty_store = Map.empty" by (simp add: empty_store_def)
  have s2: "EncryptedCacheStorage_Set toy_crypto no_entropy ''k''
        (marshal_EncryptedData envelope_v2) empty_store
      = Returns (Some iv_failure,
                 empty_store\<lparr>ecs_cache := [''k'' \<mapsto> marshal_EncryptedData envelope_v2]\<rparr>)"
    using Set_on_encrypt_failure [OF toy_encrypt_fails,
        where v = "marshal_EncryptedData envelope_v2" and key = "''k''"]
    by (simp add: e)
  have s1: "EncryptedCacheStorage_Set toy_crypto no_entropy ''k''
        (marshal_EncryptedData envelope_v1) empty_store
      = Returns (Some iv_failure,
                 empty_store\<lparr>ecs_cache := [''k'' \<mapsto> marshal_EncryptedData envelope_v1]\<rparr>)"
    using Set_on_encrypt_failure [OF toy_encrypt_fails,
        where v = "marshal_EncryptedData envelope_v1" and key = "''k''"]
    by (simp add: e)
  have g2: "EncryptedCacheStorage_Get toy_crypto ''k''
        (empty_store\<lparr>ecs_cache := [''k'' \<mapsto> marshal_EncryptedData envelope_v2]\<rparr>)
       = Returns (Inl (SecurityError ErrSecurityDecryptionFailed
                         ''unsupported encryption version''))"
    using toy_envelope_v2_encrypted toy_decrypt(1)
    by (simp add: EncryptedCacheStorage_Get_def)
  have g1: "EncryptedCacheStorage_Get toy_crypto ''k''
        (empty_store\<lparr>ecs_cache := [''k'' \<mapsto> marshal_EncryptedData envelope_v1]\<rparr>)
       = Panics ''crypto/cipher: incorrect nonce length given to GCM''"
    using toy_envelope_v1_encrypted toy_decrypt(2)
    by (simp add: EncryptedCacheStorage_Get_def)
  from s2 toy_envelope_v2_encrypted g2 s1 toy_envelope_v1_encrypted g1 show ?thesis
    by (intro conjI)
qed

text \<open>
  C10 (amended). If \<^verbatim>\<open>Encrypt\<close> returns an error during \<^verbatim>\<open>Set(key, value)\<close>, the value is
  stored under the key as it is and the error is returned, so the key is present
  afterwards. A subsequent \<^verbatim>\<open>Get(key)\<close> returns the plaintext unchanged provided
  \<^verbatim>\<open>IsEncrypted\<close> does not hold of the plaintext; when it does, \<^verbatim>\<open>Get\<close> does what \<^verbatim>\<open>Decrypt\<close>
  does with the plaintext: it returns the version error for an envelope whose version
  is not 1, and it panics for an envelope of version 1 whose fields decode and whose IV
  is not 12 bytes long.
\<close>

theorem C10_set_stores_plaintext_on_failure:
  "Encrypt env rand_iv (storage c) v = Returns (Inl err)
   \<longrightarrow> EncryptedCacheStorage_Set env rand_iv key v c
         = Returns (Some err, c\<lparr>ecs_cache := (ecs_cache c)(key \<mapsto> v)\<rparr>)
       \<and> storage (c\<lparr>ecs_cache := (ecs_cache c)(key \<mapsto> v)\<rparr>) = storage c
       \<and> EncryptedCacheStorage_Has (c\<lparr>ecs_cache := (ecs_cache c)(key \<mapsto> v)\<rparr>) key
       \<and> (\<not> IsEncrypted env v
          \<longrightarrow> EncryptedCacheStorage_Get env key (c\<lparr>ecs_cache := (ecs_cache c)(key \<mapsto> v)\<rparr>)
              = Returns (Inr v))
       \<and> (IsEncrypted env v
          \<longrightarrow> EncryptedCacheStorage_Get env key (c\<lparr>ecs_cache := (ecs_cache c)(key \<mapsto> v)\<rparr>)
              = Decrypt env (storage c) v)
       \<and> (IsEncrypted env v \<and> derivedKey (storage c) = Some dk
            \<and> unmarshal_EncryptedData env v = Inr e \<and> ed_Version e \<noteq> EncryptionVersion
          \<longrightarrow> EncryptedCacheStorage_Get env key (c\<lparr>ecs_cache := (ecs_cache c)(key \<mapsto> v)\<rparr>)
              = Returns (Inl (SecurityError ErrSecurityDecryptionFailed
                                ''unsupported encryption version'')))
       \<and> (IsEncrypted env v \<and> derivedKey (storage c) = Some dk \<and> aes_key_ok dk
            \<and> unmarshal_EncryptedData env v = Inr e \<and> ed_Version e = EncryptionVersion
            \<and> b64_decode env (IV e) = Inr iv \<and> b64_decode env (Data e) = Inr data
            \<and> length iv \<noteq> ivLength
          \<longrightarrow> EncryptedCacheStorage_Get env key (c\<lparr>ecs_cache := (ecs_cache c)(key \<mapsto> v)\<rparr>)
              = Panics ''crypto/cipher: incorrect nonce length given to GCM'')"
proof
  assume fail: "Encrypt env rand_iv (storage c) v = Returns (Inl err)"
  let ?c' = "c\<lparr>ecs_cache := (ecs_cache c)(key \<mapsto> v)\<rparr>"
  have s: "EncryptedCacheStorage_Set env rand_iv key v c = Returns (Some err, ?c')"
    by (rule Set_on_encrypt_failure [OF fail])
  have stored: "ecs_cache ?c' key = Some v" and st: "storage ?c' = storage c"
    by simp_all
  have get: "EncryptedCacheStorage_Get env key ?c'
      = (if IsEncrypted env v then Decrypt env (storage c) v else Returns (Inr v))"
    using Get_stored [OF stored, of env] st by simp
  have ver: "IsEncrypted env v \<and> derivedKey (storage c) = Some dk
            \<and> unmarshal_EncryptedData env v = Inr e \<and> ed_Version e \<noteq> EncryptionVersion
          \<longrightarrow> EncryptedCacheStorage_Get env key ?c'
              = Returns (Inl (SecurityError ErrSecurityDecryptionFailed
                                ''unsupported encryption version''))"
    using get Decrypt_other_version [of "storage c" dk env v e] by simp
  have pan: "IsEncrypted env v \<and> derivedKey (storage c) = Some dk \<and> aes_key_ok dk
            \<and> unmarshal_EncryptedData env v = Inr e \<and> ed_Version e = EncryptionVersion
            \<and> b64_decode env (IV e) = Inr iv \<and> b64_decode env (Data e) = Inr data
            \<and> length iv \<noteq> ivLength
          \<longrightarrow> EncryptedCacheStorage_Get env key ?c'
              = Panics ''crypto/cipher: incorrect nonce length given to GCM''"
    using get Decrypt_panics [of "storage c" dk env v e iv data] by simp
  from s st get ver pan
  show "EncryptedCacheStorage_Set env rand_iv key v c = Returns (Some err, ?c')
       \<and> storage ?c' = storage c
       \<and> EncryptedCacheStorage_Has ?c' key
       \<and> (\<not> IsEncrypted env v \<longrightarrow> EncryptedCacheStorage_Get env key ?c' = Returns (Inr v))
       \<and> (IsEncrypted env v
          \<longrightarrow> EncryptedCacheStorage_Get env key ?c' = Decrypt env (storage c) v)
       \<and> (IsEncrypted env v \<and> derivedKey (storage c) = Some dk
            \<and> unmarshal_EncryptedData env v = Inr e \<and> ed_Version e \<noteq> EncryptionVersion
          \<longrightarrow> EncryptedCacheStorage_Get env key ?c'
              = Returns (Inl (SecurityError ErrSecurityDecryptionFailed
                                ''unsupported encryption version'')))
       \<and> (IsEncrypted env v \<and> derivedKey (storage c) = Some dk \<and> aes_key_ok dk
            \<and> unmarshal_EncryptedData env v = Inr e \<and> ed_Version e = EncryptionVersion
            \<and> b64_decode env (IV e) = Inr iv \<and> b64_decode env (Data e) = Inr data
            \<and> length iv \<noteq> ivLength
          \<longrightarrow> EncryptedCacheStorage_Get env key ?c'
              = Panics ''crypto/cipher: incorrect nonce length given to GCM'')"
    by (simp add: EncryptedCacheStorage_Has_def)
qed

theorem C10_set_stores_plaintext_on_failure_witness:
  "Encrypt toy_crypto no_entropy (storage empty_store) ''plain'' = Returns (Inl iv_failure)
   \<and> \<not> EncryptedCacheStorage_Has empty_store ''k''
   \<and> EncryptedCacheStorage_Set toy_crypto no_entropy ''k'' ''plain'' empty_store
       = Returns (Some iv_failure, empty_store\<lparr>ecs_cache := [''k'' \<mapsto> ''plain'']\<rparr>)
   \<and> EncryptedCacheStorage_Has (empty_store\<lparr>ecs_cache := [''k'' \<mapsto> ''plain'']\<rparr>) ''k''
   \<and> \<not> IsEncrypted toy_crypto ''plain''
   \<and> EncryptedCacheStorage_Get toy_crypto ''k''
        (empty_store\<lparr>ecs_cache := [''k'' \<mapsto> ''plain'']\<rparr>)
       = Returns (Inr ''plain'')
   \<and> IsEncrypted toy_crypto (marshal_EncryptedData envelope_v2)
   \<and> EncryptedCacheStorage_Get toy_crypto ''k''
        (empty_store\<lparr>ecs_cache := [''k'' \<mapsto> marshal_EncryptedData envelope_v2]\<rparr>)
       = Returns (Inl (SecurityError ErrSecurityDecryptionFailed
                         ''unsupported encryption version''))
   \<and> IsEncrypted toy_crypto (marshal_EncryptedData envelope_v1)
   \<and> length ''a'' \<noteq> ivLength
   \<and> EncryptedCacheStorage_Get toy_crypto ''k''
        (empty_store\<lparr>ecs_cache := [''k'' \<mapsto> marshal_EncryptedData envelope_v1]\<rparr>)
       = Panics ''crypto/cipher: incorrect nonce length given to GCM''"
proof -
  have e: "ecs_cache empty_store = Map.empty" by (simp add: empty_store_def)
  note t1 = C10_set_stores_plaintext_on_failure [where env = toy_crypto
      and rand_iv = no_entropy and c = empty_store and v = "''plain''" and key = "''k''"
      and err = iv_failure, unfolded e]
  note t2 = C10_set_stores_plaintext_on_failure [where env = toy_crypto
      and rand_iv = no_entropy and c = empty_store and v = "marshal_EncryptedData envelope_v2"
      and key = "''k''" and err = iv_failure and e = envelope_v2
      and dk = "replicate 32 (CHR ''k'')", unfolded e]
  note t3 = C10_set_stores_plaintext_on_failure [where env = toy_crypto
      and rand_iv = no_entropy and c = empty_store and v = "marshal_EncryptedData envelope_v1"
      and key = "''k''" and err = iv_failure and e = envelope_v1
      and dk = "replicate 32 (CHR ''k'')" and iv = "''a''" and data = "''b''", unfolded e]
  have h0: "\<not> EncryptedCacheStorage_Has empty_store ''k''"
    by (simp add: EncryptedCacheStorage_Has_def empty_store_def)
  have v2: "ed_Version envelope_v2 \<noteq> EncryptionVersion"
    and v1: "ed_Version envelope_v1 = EncryptionVersion"
    and len: "length ''a'' \<noteq> ivLength"
    by (simp_all add: envelope_v2_def envelope_v1_def EncryptionVersion_def ivLength_def)
  have c1: "EncryptedCacheStorage_Set toy_crypto no_entropy ''k'' ''plain'' empty_store
       = Returns (Some iv_failure, empty_store\<lparr>ecs_cache := [''k'' \<mapsto> ''plain'']\<rparr>)
     \<and> EncryptedCacheStorage_Has (empty_store\<lparr>ecs_cache := [''k'' \<mapsto> ''plain'']\<rparr>) ''k''
     \<and> EncryptedCacheStorage_Get toy_crypto ''k''
        (empty_store\<lparr>ecs_cache := [''k'' \<mapsto> ''plain'']\<rparr>)
       = Returns (Inr ''plain'')"
    using t1 toy_encrypt_fails toy_plain_not_encrypted by blast
  have c2: "EncryptedCacheStorage_Get toy_crypto ''k''
        (empty_store\<lparr>ecs_cache := [''k'' \<mapsto> marshal_EncryptedData envelope_v2]\<rparr>)
       = Returns (Inl (SecurityError ErrSecurityDecryptionFailed
                         ''unsupported encryption version''))"
    using t2 toy_encrypt_fails toy_envelope_v2_encrypted empty_store_key(1) toy_unmarshal(1) v2
    by blast
  have c3: "EncryptedCacheStorage_Get toy_crypto ''k''
        (empty_store\<lparr>ecs_cache := [''k'' \<mapsto> marshal_EncryptedData envelope_v1]\<rparr>)
       = Panics ''crypto/cipher: incorrect nonce length given to GCM''"
    using t3 toy_encrypt_fails toy_envelope_v1_encrypted empty_store_key toy_unmarshal(2) v1
      toy_decode len
    by blast
  from toy_encrypt_fails [of "''plain''"] h0 c1 toy_plain_not_encrypted
    toy_envelope_v2_encrypted c2 toy_envelope_v1_encrypted len c3
  show ?thesis by blast
qed

section \<open>Recovery from the write-ahead log\<close>

lemma readLine_keyed: "keyed_by_id m \<Longrightarrow> keyed_by_id (readLine line m)"
  by (cases line) (auto simp add: keyed_by_id_def readLine_def split: option.splits)

lemma readEventsFromFile_keyed: "keyed_by_id m \<Longrightarrow> keyed_by_id (readEventsFromFile lns m)"
  unfolding readEventsFromFile_def
  by (induction lns arbitrary: m) (simp_all add: readLine_keyed)

lemma fold_files_keyed: "keyed_by_id m \<Longrightarrow> keyed_by_id (fold readEventsFromFile files m)"
  by (induction files arbitrary: m) (simp_all add: readEventsFromFile_keyed)

lemma replay_keyed: "keyed_by_id (replay files)"
  unfolding replay_def by (rule fold_files_keyed) (simp add: keyed_by_id_def)

lemma replay_snoc: "replay (files @ [file]) = readEventsFromFile file (replay files)"
  by (simp add: replay_def)

lemma replay_snoc_line:
  "replay (files @ [[line]]) = readLine line (replay files)"
  by (simp add: replay_snoc readEventsFromFile_def)

lemma replay_merge_files: "replay (file1 # file2 # files) = replay ((file1 @ file2) # files)"
  by (simp add: replay_def readEventsFromFile_def)

lemma set_collectPending:
  "set (collectPending order m)
     = {e\<lparr>Status := EventStatusPending\<rparr> | e k. k \<in> set order \<and> m k = Some e \<and> is_live e}"
  by (induction order)
    (auto simp add: collectPending_def List.map_filter_simps split: option.splits)

lemma ID_collectPending:
  assumes "keyed_by_id m"
  shows "map ID (collectPending order m)
         = filter (\<lambda>k. \<exists>e. m k = Some e \<and> is_live e) order"
  using assms
  by (induction order)
    (auto simp add: collectPending_def List.map_filter_simps keyed_by_id_def
      split: option.splits)

lemma Recover_exact:
  assumes "is_range order (replay files)"
  shows "set (Recover order files)
         = {e\<lparr>Status := EventStatusPending\<rparr> | e. e \<in> ran (replay files) \<and> is_live e}"
    and "distinct (map ID (Recover order files))"
    and "set (map ID (Recover order files))
         = {k. \<exists>e. replay files k = Some e \<and> is_live e}"
proof -
  have d: "distinct order" and s: "set order = dom (replay files)"
    using assms by (simp_all add: is_range_def)
  show "set (Recover order files)
         = {e\<lparr>Status := EventStatusPending\<rparr> | e. e \<in> ran (replay files) \<and> is_live e}"
    unfolding Recover_def set_collectPending s by (auto simp add: ran_def)
  show "distinct (map ID (Recover order files))"
    unfolding Recover_def ID_collectPending [OF replay_keyed] using d by simp
  show "set (map ID (Recover order files))
         = {k. \<exists>e. replay files k = Some e \<and> is_live e}"
    unfolding Recover_def ID_collectPending [OF replay_keyed] using s by auto
qed

lemma Recover_all_pending: "list_all (\<lambda>e. Status e = EventStatusPending) (Recover order files)"
  by (auto simp add: list_all_iff Recover_def set_collectPending)

lemma terminal_not_live:
  "Status e = EventStatusSent \<or> Status e = EventStatusFailed \<Longrightarrow> \<not> is_live e"
  by (auto simp add: is_live_def EventStatusSent_def EventStatusFailed_def
      EventStatusPending_def EventStatusSending_def)

lemma log_sent_replay:
  "replay [log_sent] ''e1''
     = Some \<lparr>ID = ''e1'', pe_Type = '''', pe_Data = [], pe_Context = [], pe_Timestamp = 0,
             Status = EventStatusSent, SentAt = 1700000000500\<rparr>"
  "replay [log_sent] ''e2'' = Some e2"
  "dom (replay [log_sent]) = {''e1'', ''e2''}"
  by (auto simp add: replay_def readEventsFromFile_def log_sent_def readLine_def
      event_line_def status_update_line_def e1_def e2_def split: if_splits)

text \<open>
  What a status update does to the stored event: the line decodes as an event of its
  own, so after \<^verbatim>\<open>MarkSending\<close> the recovered record has the id and the status but not the
  type, data or timestamp of the event that was persisted. The amended claim below
  speaks of ids and statuses only.
\<close>

lemma recover_after_mark_sending:
  "Recover [''e1''] [[event_line e1, status_update_line ''e1'' EventStatusSending 0]]
     = [\<lparr>ID = ''e1'', pe_Type = '''', pe_Data = [], pe_Context = [], pe_Timestamp = 0,
         Status = EventStatusPending, SentAt = 0\<rparr>]"
  by (simp add: Recover_def replay_def readEventsFromFile_def readLine_def event_line_def
      status_update_line_def e1_def collectPending_def is_live_def List.map_filter_simps
      EventStatusPending_def EventStatusSending_def)

text \<open>
  C2 as stated fails in its second half: \<^verbatim>\<open>Recover\<close> has no guard for terminal statuses.
  After the records of \<open>log_sent\<close> the last status observed for \<open>e1\<close> is \<^verbatim>\<open>sent\<close>; a
  further \<^verbatim>\<open>sending\<close> record for \<open>e1\<close> is not ignored, and \<^verbatim>\<open>Recover\<close> returns \<open>e1\<close>.
\<close>

theorem C2_record_after_sent_counterexample:
  "map_option Status (replay [log_sent] ''e1'') = Some EventStatusSent
   \<and> map ID (Recover [''e2'', ''e1''] [log_sent]) = [''e2'']
   \<and> map_option Status (replay [log_sent_then_sending] ''e1'') = Some EventStatusSending
   \<and> map ID (Recover [''e2'', ''e1''] [log_sent_then_sending]) = [''e2'', ''e1'']"
  by (simp add: Recover_def replay_def readEventsFromFile_def log_sent_def
      log_sent_then_sending_def readLine_def event_line_def status_update_line_def e1_def e2_def
      collectPending_def is_live_def List.map_filter_simps EventStatusPending_def
      EventStatusSending_def EventStatusSent_def)

text \<open>
  C2 (amended). For every sequence of scanned lines, \<^verbatim>\<open>Recover\<close> returns exactly one record
  for each id whose entry in the replayed map has status \<^verbatim>\<open>pending\<close> or \<^verbatim>\<open>sending\<close>, with
  the status set to \<^verbatim>\<open>pending\<close>; an id whose entry has status \<^verbatim>\<open>sent\<close> or \<^verbatim>\<open>failed\<close> is not
  returned. The entry of an id is decided by the last record for it, whatever came
  before: an event line with a non-empty id replaces the entry, an update line
  overwrites status and send time of an existing entry, empty and undecodable lines
  change nothing, and file boundaries do not matter.
\<close>

theorem C2_recover_last_record:
  "(is_range order (replay files)
      \<longrightarrow> set (Recover order files)
            = {e\<lparr>Status := EventStatusPending\<rparr> | e. e \<in> ran (replay files) \<and> is_live e}
          \<and> distinct (map ID (Recover order files))
          \<and> set (map ID (Recover order files))
              = {k. \<exists>e. replay files k = Some e
                       \<and> (Status e = EventStatusPending \<or> Status e = EventStatusSending)}
          \<and> (replay files k = Some e
                \<and> (Status e = EventStatusSent \<or> Status e = EventStatusFailed)
              \<longrightarrow> k \<notin> set (map ID (Recover order files))))
   \<and> list_all (\<lambda>e. Status e = EventStatusPending) (Recover order files)
   \<and> (replay files k = Some e \<longrightarrow> ID e = k)
   \<and> replay (files @ [[EventLine ev]])
       = (if ID ev \<noteq> '''' then (replay files)(ID ev \<mapsto> ev) else replay files)
   \<and> replay (files @ [[UpdateLine k status sentAt]])
       = (case replay files k of
            None \<Rightarrow> replay files
          | Some existing \<Rightarrow>
              (replay files)(k \<mapsto> existing\<lparr>Status := status, SentAt := sentAt\<rparr>))
   \<and> replay (files @ [[EmptyLine]]) = replay files
   \<and> replay (files @ [[BadLine]]) = replay files
   \<and> replay (file1 # file2 # files) = replay ((file1 @ file2) # files)"
proof -
  have a: "is_range order (replay files)
      \<longrightarrow> set (Recover order files)
            = {e\<lparr>Status := EventStatusPending\<rparr> | e. e \<in> ran (replay files) \<and> is_live e}
          \<and> distinct (map ID (Recover order files))
          \<and> set (map ID (Recover order files))
              = {k. \<exists>e. replay files k = Some e
                       \<and> (Status e = EventStatusPending \<or> Status e = EventStatusSending)}
          \<and> (replay files k = Some e
                \<and> (Status e = EventStatusSent \<or> Status e = EventStatusFailed)
              \<longrightarrow> k \<notin> set (map ID (Recover order files)))"
  proof
    assume r: "is_range order (replay files)"
    note ex = Recover_exact [OF r]
    have ids: "set (map ID (Recover order files))
        = {k. \<exists>e. replay files k = Some e
                 \<and> (Status e = EventStatusPending \<or> Status e = EventStatusSending)}"
      using ex(3) by (simp add: is_live_def)
    have "replay files k = Some e \<and> (Status e = EventStatusSent \<or> Status e = EventStatusFailed)
        \<longrightarrow> k \<notin> set (map ID (Recover order files))"
      unfolding ex(3) using terminal_not_live [of e] by auto
    with ex(1) ex(2) ids
    show "set (Recover order files)
            = {e\<lparr>Status := EventStatusPending\<rparr> | e. e \<in> ran (replay files) \<and> is_live e}
          \<and> distinct (map ID (Recover order files))
          \<and> set (map ID (Recover order files))
              = {k. \<exists>e. replay files k = Some e
                       \<and> (Status e = EventStatusPending \<or> Status e = EventStatusSending)}
          \<and> (replay files k = Some e
                \<and> (Status e = EventStatusSent \<or> Status e = EventStatusFailed)
              \<longrightarrow> k \<notin> set (map ID (Recover order files)))"
      by blast
  qed
  have b: "replay files k = Some e \<longrightarrow> ID e = k"
    using replay_keyed [of files] by (simp add: keyed_by_id_def)
  have c: "replay (files @ [[EventLine ev]])
       = (if ID ev \<noteq> '''' then (replay files)(ID ev \<mapsto> ev) else replay files)"
    "replay (files @ [[UpdateLine k status sentAt]])
       = (case replay files k of
            None \<Rightarrow> replay files
          | Some existing \<Rightarrow>
              (replay files)(k \<mapsto> existing\<lparr>Status := status, SentAt := sentAt\<rparr>))"
    "replay (files @ [[EmptyLine]]) = replay files"
    "replay (files @ [[BadLine]]) = replay files"
    by (simp_all add: replay_snoc_line readLine_def)
  from a b c Recover_all_pending [of order files] replay_merge_files [of file1 file2 files]
  show ?thesis by blast
qed

theorem C2_recover_last_record_witness:
  "is_range [''e2'', ''e1''] (replay [log_sent])
   \<and> replay [log_sent] ''e2'' = Some e2
   \<and> Status e2 = EventStatusPending
   \<and> replay [log_sent] ''e1''
       = Some \<lparr>ID = ''e1'', pe_Type = '''', pe_Data = [], pe_Context = [], pe_Timestamp = 0,
               Status = EventStatusSent, SentAt = 1700000000500\<rparr>
   \<and> ''e1'' \<notin> set (map ID (Recover [''e2'', ''e1''] [log_sent]))
   \<and> ''e2'' \<in> set (map ID (Recover [''e2'', ''e1''] [log_sent]))
   \<and> distinct (map ID (Recover [''e2'', ''e1''] [log_sent]))
   \<and> ID e2 = ''e2''"
proof -
  have r: "is_range [''e2'', ''e1''] (replay [log_sent])"
    by (auto simp add: is_range_def log_sent_replay(3))
  have p: "Status e2 = EventStatusPending" by (simp add: e2_def)
  note t1 = C2_recover_last_record [where order = "[''e2'', ''e1'']" and files = "[log_sent]"
      and k = "''e1''"
      and e = "\<lparr>ID = ''e1'', pe_Type = '''', pe_Data = [], pe_Context = [], pe_Timestamp = 0,
               Status = EventStatusSent, SentAt = 1700000000500\<rparr>"]
  note t2 = C2_recover_last_record [where order = "[''e2'', ''e1'']" and files = "[log_sent]"
      and k = "''e2''" and e = e2]
  have st: "Status \<lparr>ID = ''e1'', pe_Type = '''', pe_Data = [], pe_Context = [],
      pe_Timestamp = 0, Status = EventStatusSent, SentAt = 1700000000500\<rparr> = EventStatusSent"
    by simp
  have c1: "''e1'' \<notin> set (map ID (Recover [''e2'', ''e1''] [log_sent]))"
    using t1 r log_sent_replay(1) st by blast
  have c2: "distinct (map ID (Recover [''e2'', ''e1''] [log_sent]))"
    and c3: "set (map ID (Recover [''e2'', ''e1''] [log_sent]))
        = {k. \<exists>e. replay [log_sent] k = Some e
                 \<and> (Status e = EventStatusPending \<or> Status e = EventStatusSending)}"
    and c4: "ID e2 = ''e2''"
    using t2 r log_sent_replay(2) by blast+
  have c5: "''e2'' \<in> set (map ID (Recover [''e2'', ''e1''] [log_sent]))"
    unfolding c3 using log_sent_replay(2) p by blast
  from r p log_sent_replay(1,2) c1 c2 c4 c5 show ?thesis by blast
qed

section \<open>Retry loop\<close>

declare requestLoop.simps [simp del]

lemma doRequest_breaker [simp]:
  "doRequest env (c\<lparr>circuitBreaker := cb\<rparr>) k = doRequest env c k"
  by (simp add: doRequest_def)

lemma requestLoop_count:
  "requestLoop env c k attempt lastErr = (r, c', k') \<Longrightarrow>
     k \<le> k' \<and> int k' - int k \<le> max 0 (MaxAttempts (retry c) - attempt + 1)"
proof (induction env c k attempt lastErr arbitrary: r c' k' rule: requestLoop.induct)
  case (1 env c k attempt lastErr)
  show ?case
  proof (cases "attempt \<le> MaxAttempts (retry c)")
    case False
    with "1.prems" show ?thesis
      by (simp add: requestLoop.simps [of env c k attempt lastErr] retriesExhausted_def)
  next
    case le: True
    show ?thesis
    proof (cases "doRequest env c k")
      case (Inr resp)
      with le "1.prems" show ?thesis
        by (auto simp add: requestLoop.simps [of env c k attempt lastErr])
    next
      case (Inl err)
      show ?thesis
      proof (cases "\<not> isRetryable err \<or> attempt \<ge> MaxAttempts (retry c) \<or> cancelled env (Suc k)")
        case True
        with le Inl "1.prems" show ?thesis
          by (auto simp add: requestLoop.simps [of env c k attempt lastErr] retriesExhausted_def
              split: if_splits)
      next
        case False
        then have rec: "requestLoop env c (Suc k) (attempt + 1) (Some err) = (r, c', k')"
          using le Inl "1.prems"
          by (simp add: requestLoop.simps [of env c k attempt lastErr])
        have "Suc k \<le> k' \<and> int k' - int (Suc k) \<le> max 0 (MaxAttempts (retry c) - (attempt + 1) + 1)"
          using "1.IH" [OF le Inl _ _ _ rec] False by simp
        with le show ?thesis by auto
      qed
    qed
  qed
qed

lemma requestLoop_keeps:
  "requestLoop env c k attempt lastErr = (r, c', k') \<Longrightarrow>
     c' = c\<lparr>circuitBreaker := circuitBreaker c'\<rparr>"
proof (induction env c k attempt lastErr arbitrary: r c' k' rule: requestLoop.induct)
  case (1 env c k attempt lastErr)
  show ?case
  proof (cases "attempt \<le> MaxAttempts (retry c)")
    case False
    with "1.prems" show ?thesis
      by (auto simp add: requestLoop.simps [of env c k attempt lastErr] retriesExhausted_def)
  next
    case le: True
    show ?thesis
    proof (cases "doRequest env c k")
      case (Inr resp)
      with le "1.prems" show ?thesis
        by (auto simp add: requestLoop.simps [of env c k attempt lastErr])
    next
      case (Inl err)
      show ?thesis
      proof (cases "\<not> isRetryable err \<or> attempt \<ge> MaxAttempts (retry c) \<or> cancelled env (Suc k)")
        case True
        with le Inl "1.prems" show ?thesis
          by (auto simp add: requestLoop.simps [of env c k attempt lastErr] retriesExhausted_def
              split: if_splits)
      next
        case False
        then have rec: "requestLoop env c (Suc k) (attempt + 1) (Some err) = (r, c', k')"
          using le Inl "1.prems"
          by (simp add: requestLoop.simps [of env c k attempt lastErr])
        show ?thesis
          using "1.IH" [OF le Inl _ _ _ rec] False by simp
      qed
    qed
  qed
qed

text \<open>j retryable failures with uncancelled waits move the loop j attempts ahead.\<close>

lemma requestLoop_skip:
  assumes "attempt + int j \<le> MaxAttempts (retry c)"
    and "\<forall>i<j. doRequest env c (k + i) = Inl (errs i) \<and> isRetryable (errs i)
               \<and> \<not> cancelled env (Suc (k + i))"
  shows "requestLoop env c k attempt lastErr
         = requestLoop env c (k + j) (attempt + int j)
             (if j = 0 then lastErr else Some (errs (j - 1)))"
  using assms
proof (induction j arbitrary: k attempt lastErr errs)
  case 0
  then show ?case by simp
next
  case (Suc j)
  have first: "doRequest env c k = Inl (errs 0)" "isRetryable (errs 0)"
    "\<not> cancelled env (Suc k)"
    using Suc.prems(2) by (metis add.right_neutral zero_less_Suc)+
  have lt: "attempt < MaxAttempts (retry c)" using Suc.prems(1) by simp
  have step: "requestLoop env c k attempt lastErr
      = requestLoop env c (Suc k) (attempt + 1) (Some (errs 0))"
    using first lt by (simp add: requestLoop.simps [of env c k attempt lastErr])
  have bound: "(attempt + 1) + int j \<le> MaxAttempts (retry c)"
    using Suc.prems(1) by simp
  have rest: "\<forall>i<j. doRequest env c (Suc k + i) = Inl ((errs \<circ> Suc) i)
      \<and> isRetryable ((errs \<circ> Suc) i) \<and> \<not> cancelled env (Suc (Suc k + i))"
    using Suc.prems(2) by (metis Suc_less_eq add_Suc add_Suc_right comp_apply)
  have "requestLoop env c (Suc k) (attempt + 1) (Some (errs 0))
      = requestLoop env c (Suc k + j) (attempt + 1 + int j)
          (if j = 0 then Some (errs 0) else Some ((errs \<circ> Suc) (j - 1)))"
    by (rule Suc.IH [OF bound rest])
  also have "\<dots> = requestLoop env c (k + Suc j) (attempt + int (Suc j))
      (if Suc j = 0 then lastErr else Some (errs (Suc j - 1)))"
    by (cases j) (simp_all add: add.commute add.left_commute)
  finally show ?case using step by simp
qed


lemmas ErrorCode_defs =
  ErrCircuitOpen_def ErrNetworkError_def ErrNetworkTimeout_def ErrNetworkRetryLimit_def
  ErrAuthUnauthorized_def ErrAuthInvalidKey_def ErrEvalFlagNotFound_def

lemma transport_failures_retryable:
  "transport env k (currentAPIKey c) = MarshalFailed reason
   \<or> transport env k (currentAPIKey c) = NewRequestFailed reason
   \<or> transport env k (currentAPIKey c) = DoFailed reason
   \<or> transport env k (currentAPIKey c) = ReadFailed reason
   \<Longrightarrow> \<exists>err. doRequest env c k = Inl err \<and> isRetryable err"
  by (auto simp add: doRequest_def isRetryable_def NewErrorWithCause_def)

lemma status_retryable:
  "isRetryable (handleErrorResponse env status body)
     \<longleftrightarrow> status \<noteq> 401 \<and> status \<noteq> 403 \<and> status \<noteq> 404 \<and> status \<noteq> 429"
  by (simp add: handleErrorResponse_def isRetryable_def NewError_def Let_def ErrorCode_defs)

lemma isRetryable_iff:
  "isRetryable err
     \<longleftrightarrow> (\<exists>code message cause recoverable. err = FlagKitError code message cause recoverable
            \<and> (code = ErrNetworkError \<or> code = ErrNetworkTimeout))"
  by (cases err) (auto simp add: isRetryable_def)



text \<open>The loop at an attempt within the limit, by what that attempt meets.\<close>

lemma requestLoop_success:
  assumes "attempt \<le> MaxAttempts (retry c)" and "doRequest env c k = Inr resp"
  shows "requestLoop env c k attempt lastErr
         = (Inr resp, c\<lparr>circuitBreaker := RecordSuccess (circuitBreaker c)\<rparr>, Suc k)"
  using assms by (simp add: requestLoop.simps [of env c k attempt lastErr])

lemma requestLoop_stop:
  assumes "attempt \<le> MaxAttempts (retry c)" and "doRequest env c k = Inl err"
    and "\<not> isRetryable err"
  shows "requestLoop env c k attempt lastErr
         = (Inl err,
            c\<lparr>circuitBreaker := RecordFailure (clock env (Suc k)) (circuitBreaker c)\<rparr>, Suc k)"
  using assms by (simp add: requestLoop.simps [of env c k attempt lastErr])

lemma requestLoop_last:
  assumes "attempt = MaxAttempts (retry c)" and "doRequest env c k = Inl err"
    and "isRetryable err"
  shows "requestLoop env c k attempt lastErr
         = (Inl (NetworkError ErrNetworkRetryLimit ''max retries exceeded'' (Some err)),
            c\<lparr>circuitBreaker := RecordFailure (clock env (Suc k)) (circuitBreaker c)\<rparr>, Suc k)"
  using assms(2,3) unfolding assms(1)
  by (simp add: requestLoop.simps [of env c k "MaxAttempts (retry c)" lastErr]
      retriesExhausted_def)

lemma requestLoop_none:
  assumes "MaxAttempts (retry c) < attempt"
  shows "requestLoop env c k attempt lastErr
         = (Inl (NetworkError ErrNetworkRetryLimit ''max retries exceeded'' lastErr),
            c\<lparr>circuitBreaker := RecordFailure (clock env k) (circuitBreaker c)\<rparr>, k)"
  using assms
  by (simp add: requestLoop.simps [of env c k attempt lastErr] retriesExhausted_def)

lemma request_unfold:
  "request env c k =
     (if admitted env c k then requestLoop env (afterAllow env c k) k 1 None
      else (Inl (NewError ErrCircuitOpen ''circuit breaker is open''), afterAllow env c k, k))"
  by (simp add: request_def admitted_def afterAllow_def split: prod.splits)

lemma afterAllow_fields [simp]:
  "retry (afterAllow env c k) = retry c"
  "currentAPIKey (afterAllow env c k) = currentAPIKey c"
  "secondaryAPIKey (afterAllow env c k) = secondaryAPIKey c"
  "doRequest env (afterAllow env c k) n = doRequest env c n"
  by (simp_all add: afterAllow_def)

lemma request_count:
  "k \<le> snd (snd (request env c k))
   \<and> int (snd (snd (request env c k))) - int k \<le> max 0 (MaxAttempts (retry c))"
proof (cases "admitted env c k")
  case False
  then show ?thesis by (simp add: request_unfold)
next
  case True
  obtain r c' k' where run: "requestLoop env (afterAllow env c k) k 1 None = (r, c', k')"
    by (cases "requestLoop env (afterAllow env c k) k 1 None") auto
  from requestLoop_count [OF run] True run show ?thesis
    by (simp add: request_unfold)
qed

lemma request_keeps:
  assumes "request env c k = (r, c', k')"
  shows "c' = c\<lparr>circuitBreaker := circuitBreaker c'\<rparr>"
proof (cases "admitted env c k")
  case False
  with assms show ?thesis by (auto simp add: request_unfold afterAllow_def)
next
  case True
  with assms have run: "requestLoop env (afterAllow env c k) k 1 None = (r, c', k')"
    by (simp add: request_unfold)
  from requestLoop_keeps [OF run] show ?thesis
    by (simp add: afterAllow_def)
qed

lemma request_after_failures:
  assumes adm: "admitted env c k" and fails: "retryable_failures env c k j errs"
    and within: "int j < MaxAttempts (retry c)"
  shows "request env c k
         = requestLoop env (afterAllow env c k) (k + j) (1 + int j)
             (if j = 0 then None else Some (errs (j - 1)))"
proof -
  have b: "1 + int j \<le> MaxAttempts (retry (afterAllow env c k))" using within by simp
  have f: "\<forall>i<j. doRequest env (afterAllow env c k) (k + i) = Inl (errs i)
      \<and> isRetryable (errs i) \<and> \<not> cancelled env (Suc (k + i))"
    using fails by (simp add: retryable_failures_def)
  from requestLoop_skip [OF b f, of None] adm show ?thesis
    by (simp add: request_unfold)
qed


lemma default_client_fields:
  "retry default_client = DefaultRetryConfig"
  "currentAPIKey default_client = primary_key"
  "circuitBreaker default_client = NewCircuitBreaker DefaultCircuitBreakerConfig"
  by (simp_all add: default_client_def NewHTTPClient_def)

lemma new_breaker_admits: "Allow now (NewCircuitBreaker cfg) = (True, NewCircuitBreaker cfg)"
  by (simp add: Allow_def NewCircuitBreaker_def)

lemma server_fields [simp]:
  "transport (server f) = f" "clock (server f) = wall_clock"
  "cancelled (server f) k = False" "StatusText (server f) status = ''status reason''"
  by (simp_all add: server_def)

lemma bad_request_attempt:
  "doRequest bad_request_server default_client k
     = Inl (NewError ErrNetworkError ''HTTP 400: bad request'')"
  by (simp add: doRequest_def bad_request_server_def handleErrorResponse_def Let_def
      FormatInt_def)

lemma bad_request_cancelled: "cancelled bad_request_server k = False"
  by (simp add: bad_request_server_def)

lemma bad_request_retryable: "isRetryable (NewError ErrNetworkError ''HTTP 400: bad request'')"
  by (simp add: isRetryable_def NewError_def)

text \<open>
  C4 as stated fails: a status 400 is a 4xx other than 429, which the claim has stop the
  loop at once; \<^verbatim>\<open>handleErrorResponse\<close> maps it to \<^verbatim>\<open>NETWORK_ERROR\<close>, which is retried. With
  the default policy of 3 attempts the request makes 3 transport calls and ends with the
  retry-limit error.
\<close>

theorem C4_bad_request_retried_counterexample:
  "transport bad_request_server 0 (currentAPIKey default_client) = Responded 400 ''bad request''
   \<and> MaxAttempts (retry default_client) = 3
   \<and> request bad_request_server default_client 0
       = (Inl (NetworkError ErrNetworkRetryLimit ''max retries exceeded''
                 (Some (NewError ErrNetworkError ''HTTP 400: bad request''))),
          default_client
            \<lparr>circuitBreaker :=
               RecordFailure (3 * Second) (NewCircuitBreaker DefaultCircuitBreakerConfig)\<rparr>,
          3)"
proof -
  let ?e = "NewError ErrNetworkError ''HTTP 400: bad request''"
  have adm: "admitted bad_request_server default_client 0"
    by (simp add: admitted_def default_client_fields new_breaker_admits)
  have aft: "afterAllow bad_request_server default_client 0 = default_client"
    by (simp add: afterAllow_def default_client_fields new_breaker_admits)
  have fails: "retryable_failures bad_request_server default_client 0 2 (\<lambda>i. ?e)"
    by (simp add: retryable_failures_def bad_request_attempt bad_request_retryable
        bad_request_cancelled)
  have m: "MaxAttempts (retry default_client) = 3"
    by (simp add: default_client_fields DefaultRetryConfig_def)
  have "request bad_request_server default_client 0
      = requestLoop bad_request_server default_client 2 3 (Some ?e)"
    using request_after_failures [OF adm fails] m aft by (simp add: numeral_2_eq_2)
  also have "\<dots> = (Inl (NetworkError ErrNetworkRetryLimit ''max retries exceeded'' (Some ?e)),
      default_client\<lparr>circuitBreaker := RecordFailure (clock bad_request_server (Suc 2))
         (circuitBreaker default_client)\<rparr>, Suc 2)"
    by (rule requestLoop_last) (simp_all add: m bad_request_attempt bad_request_retryable)
  also have "clock bad_request_server (Suc 2) = 3 * Second"
    by (simp add: bad_request_server_def wall_clock_def)
  finally have run: "request bad_request_server default_client 0
      = (Inl (NetworkError ErrNetworkRetryLimit ''max retries exceeded'' (Some ?e)),
         default_client\<lparr>circuitBreaker :=
            RecordFailure (3 * Second) (NewCircuitBreaker DefaultCircuitBreakerConfig)\<rparr>, 3)"
    by (simp add: default_client_fields(3))
  have t: "transport bad_request_server 0 (currentAPIKey default_client)
      = Responded 400 ''bad request''"
    by (simp add: bad_request_server_def)
  from t m run show ?thesis by blast
qed

text \<open>
  A 429 is mapped to \<^verbatim>\<open>NETWORK_RETRY_LIMIT\<close>, a code \<^verbatim>\<open>isRetryable\<close> does not list although
  \<^verbatim>\<open>isRecoverableCode\<close> flags the error recoverable. The amended claim below says nothing
  about status 429.
\<close>

lemma too_many_requests_not_retried:
  "\<not> isRetryable (handleErrorResponse env 429 body)"
  "Recoverable (handleErrorResponse env 429 body)"
  by (simp_all add: handleErrorResponse_def isRetryable_def NewError_def Let_def
      isRecoverableCode_def ErrorCode_defs)

text \<open>
  C4 (amended). A call of \<^verbatim>\<open>request\<close> makes at most \<^verbatim>\<open>MaxAttempts\<close> transport calls, and none
  when the breaker refuses it (it then returns the circuit-open error) or when
  \<^verbatim>\<open>MaxAttempts\<close> is not positive. After any number of retryable failures within the limit:
  a success records a success on the breaker and is returned; a non-retryable error
  records a failure and is returned at once; a retryable error on the last attempt
  records a failure and is returned wrapped in the retry-limit error. The retryable
  errors are exactly those with code \<^verbatim>\<open>NETWORK_ERROR\<close> or \<^verbatim>\<open>NETWORK_TIMEOUT\<close>: every
  failure of the transport itself and every status other than 401, 403, 404 and 429 that
  \<^verbatim>\<open>doRequest\<close> treats as an error, so 5xx and also 4xx such as 400; statuses 401, 403
  and 404 are not retried.
\<close>

theorem C4_retry_loop:
  "k \<le> snd (snd (request env c k))
   \<and> int (snd (snd (request env c k))) - int k \<le> max 0 (MaxAttempts (retry c))
   \<and> (\<not> admitted env c k
      \<longrightarrow> request env c k
            = (Inl (NewError ErrCircuitOpen ''circuit breaker is open''), afterAllow env c k, k))
   \<and> (admitted env c k \<and> retryable_failures env c k j errs \<and> int j < MaxAttempts (retry c)
      \<longrightarrow> (doRequest env c (k + j) = Inr resp
           \<longrightarrow> request env c k
                 = (Inr resp,
                    (afterAllow env c k)
                      \<lparr>circuitBreaker := RecordSuccess (circuitBreaker (afterAllow env c k))\<rparr>,
                    Suc (k + j)))
          \<and> (doRequest env c (k + j) = Inl err \<and> \<not> isRetryable err
             \<longrightarrow> request env c k
                   = (Inl err,
                      (afterAllow env c k)
                        \<lparr>circuitBreaker :=
                           RecordFailure (clock env (Suc (k + j)))
                             (circuitBreaker (afterAllow env c k))\<rparr>,
                      Suc (k + j)))
          \<and> (doRequest env c (k + j) = Inl err \<and> isRetryable err
                \<and> int (Suc j) = MaxAttempts (retry c)
             \<longrightarrow> request env c k
                   = (Inl (NetworkError ErrNetworkRetryLimit ''max retries exceeded'' (Some err)),
                      (afterAllow env c k)
                        \<lparr>circuitBreaker :=
                           RecordFailure (clock env (Suc (k + j)))
                             (circuitBreaker (afterAllow env c k))\<rparr>,
                      Suc (k + j))))
   \<and> (admitted env c k \<and> MaxAttempts (retry c) \<le> 0
      \<longrightarrow> request env c k
            = (Inl (NetworkError ErrNetworkRetryLimit ''max retries exceeded'' None),
               (afterAllow env c k)
                 \<lparr>circuitBreaker :=
                    RecordFailure (clock env k) (circuitBreaker (afterAllow env c k))\<rparr>,
               k))
   \<and> (isRetryable e
      \<longleftrightarrow> (\<exists>code message cause recoverable.
             e = FlagKitError code message cause recoverable
             \<and> (code = ErrNetworkError \<or> code = ErrNetworkTimeout)))
   \<and> (status \<noteq> 401 \<and> status \<noteq> 403 \<and> status \<noteq> 404 \<and> status \<noteq> 429
      \<longrightarrow> isRetryable (handleErrorResponse env status body))
   \<and> (status = 401 \<or> status = 403 \<or> status = 404
      \<longrightarrow> \<not> isRetryable (handleErrorResponse env status body))
   \<and> (transport env n (currentAPIKey c) = MarshalFailed reason
        \<or> transport env n (currentAPIKey c) = NewRequestFailed reason
        \<or> transport env n (currentAPIKey c) = DoFailed reason
        \<or> transport env n (currentAPIKey c) = ReadFailed reason
      \<longrightarrow> (\<exists>err. doRequest env c n = Inl err \<and> isRetryable err))"
proof -
  let ?c0 = "afterAllow env c k"
  have a: "\<not> admitted env c k
      \<longrightarrow> request env c k
            = (Inl (NewError ErrCircuitOpen ''circuit breaker is open''), ?c0, k)"
    by (simp add: request_unfold)
  have b: "admitted env c k \<and> retryable_failures env c k j errs \<and> int j < MaxAttempts (retry c)
      \<longrightarrow> (doRequest env c (k + j) = Inr resp
           \<longrightarrow> request env c k
                 = (Inr resp, ?c0\<lparr>circuitBreaker := RecordSuccess (circuitBreaker ?c0)\<rparr>,
                    Suc (k + j)))
          \<and> (doRequest env c (k + j) = Inl err \<and> \<not> isRetryable err
             \<longrightarrow> request env c k
                   = (Inl err,
                      ?c0\<lparr>circuitBreaker :=
                             RecordFailure (clock env (Suc (k + j))) (circuitBreaker ?c0)\<rparr>,
                      Suc (k + j)))
          \<and> (doRequest env c (k + j) = Inl err \<and> isRetryable err
                \<and> int (Suc j) = MaxAttempts (retry c)
             \<longrightarrow> request env c k
                   = (Inl (NetworkError ErrNetworkRetryLimit ''max retries exceeded'' (Some err)),
                      ?c0\<lparr>circuitBreaker :=
                             RecordFailure (clock env (Suc (k + j))) (circuitBreaker ?c0)\<rparr>,
                      Suc (k + j)))"
  proof (intro impI, elim conjE)
    assume adm: "admitted env c k" and fails: "retryable_failures env c k j errs"
      and within: "int j < MaxAttempts (retry c)"
    let ?last = "if j = 0 then None else Some (errs (j - 1))"
    have run: "request env c k = requestLoop env ?c0 (k + j) (1 + int j) ?last"
      by (rule request_after_failures [OF adm fails within])
    have le: "1 + int j \<le> MaxAttempts (retry ?c0)" using within by simp
    have s: "doRequest env c (k + j) = Inr resp
        \<longrightarrow> request env c k
              = (Inr resp, ?c0\<lparr>circuitBreaker := RecordSuccess (circuitBreaker ?c0)\<rparr>,
                 Suc (k + j))"
      using requestLoop_success [OF le, of env "k + j" resp ?last] run by simp
    have t: "doRequest env c (k + j) = Inl err \<and> \<not> isRetryable err
        \<longrightarrow> request env c k
              = (Inl err,
                 ?c0\<lparr>circuitBreaker :=
                        RecordFailure (clock env (Suc (k + j))) (circuitBreaker ?c0)\<rparr>,
                 Suc (k + j))"
      using requestLoop_stop [OF le, of env "k + j" err ?last] run by simp
    have u: "doRequest env c (k + j) = Inl err \<and> isRetryable err
          \<and> int (Suc j) = MaxAttempts (retry c)
        \<longrightarrow> request env c k
              = (Inl (NetworkError ErrNetworkRetryLimit ''max retries exceeded'' (Some err)),
                 ?c0\<lparr>circuitBreaker :=
                        RecordFailure (clock env (Suc (k + j))) (circuitBreaker ?c0)\<rparr>,
                 Suc (k + j))"
      using requestLoop_last [of "1 + int j" ?c0 env "k + j" err ?last] run by simp
    from s t u
    show "(doRequest env c (k + j) = Inr resp
           \<longrightarrow> request env c k
                 = (Inr resp, ?c0\<lparr>circuitBreaker := RecordSuccess (circuitBreaker ?c0)\<rparr>,
                    Suc (k + j)))
          \<and> (doRequest env c (k + j) = Inl err \<and> \<not> isRetryable err
             \<longrightarrow> request env c k
                   = (Inl err,
                      ?c0\<lparr>circuitBreaker :=
                             RecordFailure (clock env (Suc (k + j))) (circuitBreaker ?c0)\<rparr>,
                      Suc (k + j)))
          \<and> (doRequest env c (k + j) = Inl err \<and> isRetryable err
                \<and> int (Suc j) = MaxAttempts (retry c)
             \<longrightarrow> request env c k
                   = (Inl (NetworkError ErrNetworkRetryLimit ''max retries exceeded'' (Some err)),
                      ?c0\<lparr>circuitBreaker :=
                             RecordFailure (clock env (Suc (k + j))) (circuitBreaker ?c0)\<rparr>,
                      Suc (k + j)))"
      by blast
  qed
  have z: "admitted env c k \<and> MaxAttempts (retry c) \<le> 0
      \<longrightarrow> request env c k
            = (Inl (NetworkError ErrNetworkRetryLimit ''max retries exceeded'' None),
               ?c0\<lparr>circuitBreaker := RecordFailure (clock env k) (circuitBreaker ?c0)\<rparr>, k)"
    using requestLoop_none [of ?c0 1 env k None] by (simp add: request_unfold)
  have cls: "status \<noteq> 401 \<and> status \<noteq> 403 \<and> status \<noteq> 404 \<and> status \<noteq> 429
      \<longrightarrow> isRetryable (handleErrorResponse env status body)"
    "status = 401 \<or> status = 403 \<or> status = 404
      \<longrightarrow> \<not> isRetryable (handleErrorResponse env status body)"
    by (simp_all add: status_retryable)
  from request_count [of k env c] a b z isRetryable_iff [of e] cls
    transport_failures_retryable [of env n c reason]
  show ?thesis by blast
qed


lemma retrying_client_fields:
  "MaxAttempts (retry retrying_client) = 2"
  "currentAPIKey retrying_client = primary_key"
  "circuitBreaker retrying_client = NewCircuitBreaker DefaultCircuitBreakerConfig"
  by (simp_all add: retrying_client_def NewHTTPClient_def two_attempts_def)

lemma retrying_client_admitted:
  "admitted (server f) retrying_client k"
  "afterAllow (server f) retrying_client k = retrying_client"
  by (simp_all add: admitted_def afterAllow_def retrying_client_fields new_breaker_admits)

lemma tripped_client_refused: "\<not> admitted flaky_server tripped_client 0"
  by (simp add: admitted_def tripped_client_def flaky_server_def wall_clock_def probe_open_eq
      Allow_def probe_breaker_config_def Millisecond_def)

lemma no_attempts_fields:
  "MaxAttempts (retry no_attempts_client) \<le> 0"
  "admitted flaky_server no_attempts_client 0"
  by (simp_all add: no_attempts_client_def admitted_def retrying_client_fields
      new_breaker_admits)

lemma first_500:
  "doRequest (server (\<lambda>k key. if k = 0 then Responded 500 ''internal error'' else g k key))
     retrying_client 0 = Inl http500"
  "isRetryable http500"
  by (simp_all add: doRequest_def handleErrorResponse_def Let_def http500_def FormatInt_def
      isRetryable_def NewError_def)

lemma flaky_failures: "retryable_failures flaky_server retrying_client 0 1 (\<lambda>i. http500)"
  by (simp add: retryable_failures_def flaky_server_def first_500)

lemma missing_failures: "retryable_failures missing_server retrying_client 0 1 (\<lambda>i. http500)"
  by (simp add: retryable_failures_def missing_server_def first_500)

lemma down_failures:
  "retryable_failures down_server retrying_client 0 1
     (\<lambda>i. NewErrorWithCause ErrNetworkError ''request failed''
            (Some (OtherError ''connection refused'')))"
  by (simp add: retryable_failures_def down_server_def doRequest_def isRetryable_def
      NewErrorWithCause_def)

lemma second_attempts:
  "doRequest flaky_server retrying_client (0 + 1) = Inr \<lparr>StatusCode = 200, Body = ''ok''\<rparr>"
  "doRequest missing_server retrying_client (0 + 1)
     = Inl (NewError ErrEvalFlagNotFound ''no such flag'')"
  "doRequest down_server retrying_client (0 + 1) = Inl (NewError ErrNetworkError ''status reason'')"
  by (simp_all add: doRequest_def flaky_server_def missing_server_def down_server_def
      handleErrorResponse_def Let_def)

lemma second_errors:
  "\<not> isRetryable (NewError ErrEvalFlagNotFound ''no such flag'')"
  "isRetryable (NewError ErrNetworkError ''status reason'')"
  by (simp_all add: isRetryable_def NewError_def ErrorCode_defs)

theorem C4_retry_loop_witness:
  "\<not> admitted flaky_server tripped_client 0
   \<and> fst (request flaky_server tripped_client 0)
       = Inl (NewError ErrCircuitOpen ''circuit breaker is open'')
   \<and> snd (snd (request flaky_server tripped_client 0)) = 0
   \<and> admitted flaky_server retrying_client 0
   \<and> retryable_failures flaky_server retrying_client 0 1 (\<lambda>i. http500)
   \<and> int 1 < MaxAttempts (retry retrying_client)
   \<and> doRequest flaky_server retrying_client (0 + 1) = Inr \<lparr>StatusCode = 200, Body = ''ok''\<rparr>
   \<and> fst (request flaky_server retrying_client 0) = Inr \<lparr>StatusCode = 200, Body = ''ok''\<rparr>
   \<and> snd (snd (request flaky_server retrying_client 0)) = 2
   \<and> retryable_failures missing_server retrying_client 0 1 (\<lambda>i. http500)
   \<and> doRequest missing_server retrying_client (0 + 1)
       = Inl (NewError ErrEvalFlagNotFound ''no such flag'')
   \<and> \<not> isRetryable (NewError ErrEvalFlagNotFound ''no such flag'')
   \<and> fst (request missing_server retrying_client 0)
       = Inl (NewError ErrEvalFlagNotFound ''no such flag'')
   \<and> retryable_failures down_server retrying_client 0 1
        (\<lambda>i. NewErrorWithCause ErrNetworkError ''request failed''
               (Some (OtherError ''connection refused'')))
   \<and> doRequest down_server retrying_client (0 + 1)
       = Inl (NewError ErrNetworkError ''status reason'')
   \<and> isRetryable (NewError ErrNetworkError ''status reason'')
   \<and> int (Suc 1) = MaxAttempts (retry retrying_client)
   \<and> fst (request down_server retrying_client 0)
       = Inl (NetworkError ErrNetworkRetryLimit ''max retries exceeded''
                (Some (NewError ErrNetworkError ''status reason'')))
   \<and> snd (snd (request down_server retrying_client 0)) = 2
   \<and> admitted flaky_server no_attempts_client 0
   \<and> MaxAttempts (retry no_attempts_client) \<le> 0
   \<and> fst (request flaky_server no_attempts_client 0)
       = Inl (NetworkError ErrNetworkRetryLimit ''max retries exceeded'' None)
   \<and> snd (snd (request flaky_server no_attempts_client 0)) = 0
   \<and> isRetryable (handleErrorResponse flaky_server 500 ''internal error'')
   \<and> \<not> isRetryable (handleErrorResponse flaky_server 404 ''no such flag'')
   \<and> transport down_server 0 (currentAPIKey retrying_client) = DoFailed ''connection refused''"
proof -
  note t0 = C4_retry_loop [where env = flaky_server and c = tripped_client and k = 0]
  note t1 = C4_retry_loop [where env = flaky_server and c = retrying_client and k = 0
      and j = 1 and errs = "\<lambda>i. http500"
      and resp = "\<lparr>StatusCode = 200, Body = ''ok''\<rparr>"
      and status = 500 and body = "''internal error''"]
  note t2 = C4_retry_loop [where env = missing_server and c = retrying_client and k = 0
      and j = 1 and errs = "\<lambda>i. http500"
      and err = "NewError ErrEvalFlagNotFound ''no such flag''"]
  note t3 = C4_retry_loop [where env = down_server and c = retrying_client and k = 0
      and j = 1
      and errs = "\<lambda>i. NewErrorWithCause ErrNetworkError ''request failed''
                     (Some (OtherError ''connection refused''))"
      and err = "NewError ErrNetworkError ''status reason''"]
  note t4 = C4_retry_loop [where env = flaky_server and c = no_attempts_client and k = 0
      and status = 404 and body = "''no such flag''"]
  have adm: "admitted flaky_server retrying_client 0" "admitted missing_server retrying_client 0"
    "admitted down_server retrying_client 0"
    by (simp_all add: flaky_server_def missing_server_def down_server_def
        retrying_client_admitted)
  have lim: "int 1 < MaxAttempts (retry retrying_client)"
    "int (Suc 1) = MaxAttempts (retry retrying_client)"
    by (simp_all add: retrying_client_fields)
  have c0: "request flaky_server tripped_client 0
      = (Inl (NewError ErrCircuitOpen ''circuit breaker is open''),
         afterAllow flaky_server tripped_client 0, 0)"
    using t0 tripped_client_refused by blast
  have c1: "request flaky_server retrying_client 0
      = (Inr \<lparr>StatusCode = 200, Body = ''ok''\<rparr>,
         (afterAllow flaky_server retrying_client 0)
           \<lparr>circuitBreaker :=
              RecordSuccess (circuitBreaker (afterAllow flaky_server retrying_client 0))\<rparr>,
         Suc (0 + 1))"
    using t1 adm(1) flaky_failures lim(1) second_attempts(1) by blast
  have c2: "request missing_server retrying_client 0
      = (Inl (NewError ErrEvalFlagNotFound ''no such flag''),
         (afterAllow missing_server retrying_client 0)
           \<lparr>circuitBreaker :=
              RecordFailure (clock missing_server (Suc (0 + 1)))
                (circuitBreaker (afterAllow missing_server retrying_client 0))\<rparr>,
         Suc (0 + 1))"
    using t2 adm(2) missing_failures lim(1) second_attempts(2) second_errors(1) by blast
  have c3: "request down_server retrying_client 0
      = (Inl (NetworkError ErrNetworkRetryLimit ''max retries exceeded''
                (Some (NewError ErrNetworkError ''status reason''))),
         (afterAllow down_server retrying_client 0)
           \<lparr>circuitBreaker :=
              RecordFailure (clock down_server (Suc (0 + 1)))
                (circuitBreaker (afterAllow down_server retrying_client 0))\<rparr>,
         Suc (0 + 1))"
    using t3 adm(3) down_failures lim second_attempts(3) second_errors(2) by blast
  have c4: "request flaky_server no_attempts_client 0
      = (Inl (NetworkError ErrNetworkRetryLimit ''max retries exceeded'' None),
         (afterAllow flaky_server no_attempts_client 0)
           \<lparr>circuitBreaker :=
              RecordFailure (clock flaky_server 0)
                (circuitBreaker (afterAllow flaky_server no_attempts_client 0))\<rparr>,
         0)"
    using t4 no_attempts_fields by blast
  have n5: "(500::int) \<noteq> 401 \<and> (500::int) \<noteq> 403 \<and> (500::int) \<noteq> 404
      \<and> (500::int) \<noteq> 429"
    and n4: "(404::int) = 401 \<or> (404::int) = 403 \<or> (404::int) = 404"
    by simp_all
  have c5: "isRetryable (handleErrorResponse flaky_server 500 ''internal error'')"
    using t1 n5 by blast
  have c6: "\<not> isRetryable (handleErrorResponse flaky_server 404 ''no such flag'')"
    using t4 n4 by blast
  have c7: "transport down_server 0 (currentAPIKey retrying_client)
      = DoFailed ''connection refused''"
    by (simp add: down_server_def)
  show ?thesis
    using tripped_client_refused adm(1) flaky_failures missing_failures down_failures lim
      second_attempts second_errors no_attempts_fields c5 c6 c7
    by (simp add: c0 c1 c2 c3 c4)
qed

section \<open>Key rotation\<close>













lemma request_retry: "request env c k = (r, c', k') \<Longrightarrow> retry c' = retry c"
proof -
  assume "request env c k = (r, c', k')"
  from request_keeps [OF this] have "c' = c\<lparr>circuitBreaker := circuitBreaker c'\<rparr>" .
  then have "retry c' = retry (c\<lparr>circuitBreaker := circuitBreaker c'\<rparr>)" by simp
  then show "retry c' = retry c" by simp
qed

























section \<open>\<^verbatim>\<open>float64\<close> rounding\<close>

lemma ilog2_nonneg: "1 \<le> a \<Longrightarrow> 0 \<le> ilog2 a"
proof -
  assume a: "1 \<le> a"
  then have "1 \<le> \<lfloor>a\<rfloor>" by simp
  then have "0 < \<lfloor>a\<rfloor>" by simp
  from bitlen_bounds [OF this] have "\<lfloor>a\<rfloor> < 2 ^ nat (bitlen \<lfloor>a\<rfloor>)" by simp
  with \<open>1 \<le> \<lfloor>a\<rfloor>\<close> have "(1::int) < 2 ^ nat (bitlen \<lfloor>a\<rfloor>)" by linarith
  then have "nat (bitlen \<lfloor>a\<rfloor>) \<noteq> 0" by (metis less_irrefl power_0)
  then have "1 \<le> bitlen \<lfloor>a\<rfloor>" by simp
  with a show ?thesis by (simp add: ilog2_def)
qed

lemma ilog2_lower: "1 \<le> a \<Longrightarrow> 2 powi (ilog2 a) \<le> a"
proof -
  assume a: "1 \<le> a"
  then have pos: "0 < \<lfloor>a\<rfloor>" by simp
  have e: "0 \<le> ilog2 a" by (rule ilog2_nonneg [OF a])
  from bitlen_bounds [OF pos] have "(2::int) ^ nat (bitlen \<lfloor>a\<rfloor> - 1) \<le> \<lfloor>a\<rfloor>" by simp
  then have "(of_int ((2::int) ^ nat (bitlen \<lfloor>a\<rfloor> - 1)) :: rat) \<le> of_int \<lfloor>a\<rfloor>"
    by (simp only: of_int_le_iff)
  also have "\<dots> \<le> a" by simp
  finally have "(2::rat) ^ nat (bitlen \<lfloor>a\<rfloor> - 1) \<le> a" by simp
  with a e show ?thesis by (simp add: ilog2_def power_int_def)
qed

lemma ilog2_upper: "1 \<le> a \<Longrightarrow> a < 2 powi (ilog2 a + 1)"
proof -
  assume a: "1 \<le> a"
  then have pos: "0 < \<lfloor>a\<rfloor>" by simp
  have e: "0 \<le> ilog2 a" by (rule ilog2_nonneg [OF a])
  from bitlen_bounds [OF pos] have "\<lfloor>a\<rfloor> < (2::int) ^ nat (bitlen \<lfloor>a\<rfloor>)" by simp
  then have "a < of_int ((2::int) ^ nat (bitlen \<lfloor>a\<rfloor>))"
    by (simp only: floor_less_iff)
  then have "a < (2::rat) ^ nat (bitlen \<lfloor>a\<rfloor>)" by simp
  with a e show ?thesis by (simp add: ilog2_def power_int_def)
qed

lemma ilog2_bounds_small:
  assumes a0: "0 < a" and a1: "a < 1"
  shows "2 powi (ilog2 a) \<le> a" and "a < 2 powi (ilog2 a + 1)"
proof -
  define b where "b = 1 / a"
  define n where "n = \<lceil>b\<rceil>"
  define k where "k = bitlen (n - 1)"
  have b1: "1 < b" using a0 a1 by (simp add: b_def)
  have n2: "2 \<le> n" unfolding n_def using b1 by linarith
  then have pos: "0 < n - 1" by simp
  from bitlen_bounds [OF pos]
  have lo: "(2::int) ^ nat (k - 1) \<le> n - 1" and hi: "n - 1 < (2::int) ^ nat k"
    by (simp_all add: k_def)
  have k1: "1 \<le> k"
  proof (rule ccontr)
    assume "\<not> 1 \<le> k"
    then have "nat k = 0" by simp
    with hi pos show False by simp
  qed
  have e: "ilog2 a = - k" using a1 by (simp add: ilog2_def k_def n_def b_def)
  have "b \<le> of_int n" by (simp add: n_def)
  also have "(of_int n :: rat) \<le> of_int (2 ^ nat k)" using hi by (simp only: of_int_le_iff)
  finally have bk: "b \<le> 2 ^ nat k" by simp
  have "(of_int (2 ^ nat (k - 1)) :: rat) \<le> of_int (n - 1)" using lo by (simp only: of_int_le_iff)
  also have "(of_int (n - 1) :: rat) < b" unfolding n_def by linarith
  finally have kb: "2 ^ nat (k - 1) < b" by simp
  have p1: "(2::rat) powi (- k) = 1 / 2 ^ nat k"
    using k1 by (simp add: power_int_def field_simps)
  have p2: "(2::rat) powi (- k + 1) = 1 / 2 ^ nat (k - 1)"
    using k1 by (simp add: power_int_def field_simps nat_diff_distrib)
  have ab: "a = 1 / b" using a0 by (simp add: b_def)
  have bpos: "0 < b" using b1 by simp
  have "1 / 2 ^ nat k \<le> 1 / b" using bk bpos by (simp add: frac_le)
  then show "2 powi (ilog2 a) \<le> a" by (simp only: e p1 ab [symmetric])
  have "1 / b < 1 / 2 ^ nat (k - 1)" using kb bpos by (simp add: frac_less2)
  then show "a < 2 powi (ilog2 a + 1)" by (simp only: e p2 ab [symmetric])
qed

text \<open>\<open>ilog2\<close> is the exponent of every positive rational.\<close>

lemma ilog2_bounds:
  assumes "0 < a"
  shows "2 powi (ilog2 a) \<le> a \<and> a < 2 powi (ilog2 a + 1)"
proof (cases "1 \<le> a")
  case True
  then show ?thesis using ilog2_lower ilog2_upper by blast
next
  case False
  then have "a < 1" by simp
  from ilog2_bounds_small [OF assms this] show ?thesis by blast
qed

lemma round_half_even_of_int [simp]: "round_half_even (of_int n) = n"
  by (simp add: round_half_even_def)

lemma round_half_even_lower: "of_int n \<le> q \<Longrightarrow> n \<le> round_half_even q"
proof -
  assume "of_int n \<le> q"
  then have "n \<le> \<lfloor>q\<rfloor>" by (simp add: le_floor_iff)
  then show ?thesis by (simp add: round_half_even_def Let_def)
qed

lemma round_half_even_upper: "q \<le> of_int n \<Longrightarrow> round_half_even q \<le> n"
proof (cases "q = of_int n")
  case True
  then show ?thesis by simp
next
  case False
  assume "q \<le> of_int n"
  with False have "q < of_int n" by simp
  then have "\<lfloor>q\<rfloor> < n" by (simp add: floor_less_iff)
  then show ?thesis by (simp add: round_half_even_def Let_def)
qed


lemma ulp_pos [simp]: "0 < ulp a"
  by (simp add: ulp_def)

lemma ulp_nonzero [simp]: "ulp a \<noteq> 0"
  by (simp add: ulp_def)

lemma ulp_ge1: "1 \<le> a \<Longrightarrow> ulp a = 2 powi (ilog2 a - 52)"
  using ilog2_nonneg [of a] by (simp add: ulp_def max_def)

lemma two_powi_nat: "0 \<le> e \<Longrightarrow> (2::rat) powi e = 2 ^ nat e"
  by (simp add: power_int_def)

lemma two_powi_split: "(2::rat) powi (a + b) = 2 powi a * 2 powi b"
  by (rule power_int_add) simp

lemma ilog2_less:
  assumes "1 \<le> a" and "a < 2 powi n"
  shows "ilog2 a < n"
proof (rule ccontr)
  assume "\<not> ilog2 a < n"
  then have "n \<le> ilog2 a" by simp
  then have "(2::rat) powi n \<le> 2 powi (ilog2 a)"
    by (rule power_int_increasing) simp
  also have "\<dots> \<le> a" by (rule ilog2_lower [OF assms(1)])
  finally show False using assms(2) by simp
qed

lemma round_lower:
  assumes x1: "1 \<le> x" and x53: "x \<le> 2 ^ 53" and xy: "of_int x \<le> y"
  shows "of_int x \<le> of_int (round_half_even (y / ulp y)) * ulp y"
proof -
  have y1: "1 \<le> y" using x1 xy by (meson of_int_1_le_iff order_trans)
  define e where "e = ilog2 y"
  have e0: "0 \<le> e" unfolding e_def by (rule ilog2_nonneg [OF y1])
  have u: "ulp y = 2 powi (e - 52)" unfolding e_def by (rule ulp_ge1 [OF y1])
  have lo: "2 powi e \<le> y" unfolding e_def by (rule ilog2_lower [OF y1])
  show ?thesis
  proof (cases "e \<le> 52")
    case True
    define K :: int where "K = 2 ^ nat (52 - e)"
    have Kpos: "0 < K" by (simp add: K_def)
    have uK: "ulp y = 1 / of_int K"
    proof -
      have "(2::rat) powi (e - 52) = 2 powi (- (52 - e))" by simp
      also have "\<dots> = inverse (2 powi (52 - e))" by (rule power_int_minus)
      also have "(2::rat) powi (52 - e) = 2 ^ nat (52 - e)"
        using True by (simp add: two_powi_nat)
      finally show ?thesis by (simp add: u K_def inverse_eq_divide)
    qed
    have q: "y / ulp y = y * of_int K" by (simp add: uK)
    have "(of_int (x * K) :: rat) = of_int x * of_int K" by simp
    also have "\<dots> \<le> y * of_int K"
      using xy Kpos by (intro mult_right_mono) simp_all
    finally have "of_int (x * K) \<le> y / ulp y" by (simp add: q)
    then have "x * K \<le> round_half_even (y / ulp y)" by (rule round_half_even_lower)
    then have "(of_int (x * K) :: rat) \<le> of_int (round_half_even (y / ulp y))"
      by (simp only: of_int_le_iff)
    then have A: "(of_int (x * K) :: rat) * ulp y
        \<le> of_int (round_half_even (y / ulp y)) * ulp y"
      by (intro mult_right_mono) (simp_all add: less_imp_le)
    have B: "(of_int (x * K) :: rat) * ulp y = of_int x"
      using Kpos by (simp add: uK)
    from A show ?thesis unfolding B .
  next
    case False
    then have e53: "53 \<le> e" by simp
    have "(2::rat) powi e = 2 powi (52 + (e - 52))" by simp
    also have "\<dots> = 2 powi 52 * 2 powi (e - 52)" by (rule two_powi_split)
    finally have split: "(2::rat) powi e = 2 ^ 52 * ulp y" by (simp add: u)
    have "(of_int (2 ^ 52) :: rat) = 2 ^ 52 * ulp y / ulp y" by simp
    also have "\<dots> \<le> y / ulp y"
      using lo split by (intro divide_right_mono) (simp_all add: less_imp_le)
    finally have "2 ^ 52 \<le> round_half_even (y / ulp y)" by (rule round_half_even_lower)
    then have "(of_int (2 ^ 52) :: rat) \<le> of_int (round_half_even (y / ulp y))"
      by (simp only: of_int_le_iff)
    then have "(of_int (2 ^ 52) :: rat) * ulp y \<le> of_int (round_half_even (y / ulp y)) * ulp y"
      by (intro mult_right_mono) (simp_all add: less_imp_le)
    then have ge: "(2::rat) powi e \<le> of_int (round_half_even (y / ulp y)) * ulp y"
      by (simp add: split)
    have "(2::rat) powi 53 \<le> 2 powi e"
      using e53 by (intro power_int_increasing) simp_all
    then have "(2::rat) ^ 53 \<le> 2 powi e" by simp
    moreover have "(of_int x :: rat) \<le> 2 ^ 53"
    proof -
      have "(of_int x :: rat) \<le> of_int (2 ^ 53)" using x53 by (simp only: of_int_le_iff)
      then show ?thesis by simp
    qed
    ultimately show ?thesis using ge by linarith
  qed
qed

lemma round_upper:
  assumes y1: "1 \<le> y" and top: "y \<le> 2 ^ 63 - 1024"
  shows "of_int (round_half_even (y / ulp y)) * ulp y \<le> 2 ^ 63 - 1024"
proof -
  define e where "e = ilog2 y"
  have u: "ulp y = 2 powi (e - 52)" unfolding e_def by (rule ulp_ge1 [OF y1])
  have "y < 2 powi 63" using top by simp
  from ilog2_less [OF y1 this] have e62: "e \<le> 62" by (simp add: e_def)
  define N :: int where "N = (2 ^ 53 - 1) * 2 ^ nat (62 - e)"
  have "(2::rat) powi 10 = 2 powi ((62 - e) + (e - 52))" by simp
  also have "\<dots> = 2 powi (62 - e) * 2 powi (e - 52)" by (rule two_powi_split)
  also have "(2::rat) powi (62 - e) = 2 ^ nat (62 - e)" using e62 by (simp add: two_powi_nat)
  finally have ten: "(2::rat) ^ 10 = 2 ^ nat (62 - e) * ulp y" by (simp add: u)
  have Nu: "(of_int N :: rat) * ulp y = 2 ^ 63 - 1024"
  proof -
    have "(of_int N :: rat) * ulp y = (2 ^ 53 - 1) * (2 ^ nat (62 - e) * ulp y)"
      by (simp add: N_def)
    also have "\<dots> = (2 ^ 53 - 1) * 2 ^ 10" by (simp only: ten)
    also have "\<dots> = 2 ^ 63 - 1024" by simp
    finally show ?thesis .
  qed
  have "y / ulp y \<le> (2 ^ 63 - 1024) / ulp y"
    using top by (intro divide_right_mono) (simp_all add: less_imp_le)
  also have "\<dots> = of_int N * ulp y / ulp y" by (simp only: Nu)
  also have "\<dots> = of_int N" by simp
  finally have "round_half_even (y / ulp y) \<le> N" by (rule round_half_even_upper)
  then have "(of_int (round_half_even (y / ulp y)) :: rat) \<le> of_int N"
    by (simp only: of_int_le_iff)
  then have "of_int (round_half_even (y / ulp y)) * ulp y \<le> of_int N * ulp y"
    by (intro mult_right_mono) (simp_all add: less_imp_le)
  then show ?thesis by (simp only: Nu)
qed

lemma round_exact:
  assumes n1: "1 \<le> n" and n53: "n < 2 ^ 53" and y: "y = of_int n * 2 ^ j"
  shows "of_int (round_half_even (y / ulp y)) * ulp y = y"
proof -
  have "(1::rat) \<le> of_int n" using n1 by simp
  moreover have "(1::rat) \<le> 2 ^ j" by simp
  ultimately have "(1::rat) * 1 \<le> of_int n * 2 ^ j" by (intro mult_mono) simp_all
  then have y1: "1 \<le> y" by (simp add: y)
  define e where "e = ilog2 y"
  have u: "ulp y = 2 powi (e - 52)" unfolding e_def by (rule ulp_ge1 [OF y1])
  have "(of_int n :: rat) < of_int (2 ^ 53)" using n53 by (simp only: of_int_less_iff)
  then have "(of_int n :: rat) < 2 ^ 53" by simp
  then have "(of_int n :: rat) * 2 ^ j < 2 ^ 53 * 2 ^ j"
    by (intro mult_strict_right_mono) simp_all
  also have "\<dots> = 2 powi (53 + int j)" using two_powi_split [of 53 "int j"] by simp
  finally have "y < 2 powi (53 + int j)" by (simp add: y)
  from ilog2_less [OF y1 this] have k0: "0 \<le> int j + 52 - e" by (simp add: e_def)
  define K :: int where "K = 2 ^ nat (int j + 52 - e)"
  have "(2::rat) powi (int j) = 2 powi ((int j + 52 - e) + (e - 52))" by simp
  also have "\<dots> = 2 powi (int j + 52 - e) * 2 powi (e - 52)" by (rule two_powi_split)
  also have "(2::rat) powi (int j + 52 - e) = 2 ^ nat (int j + 52 - e)"
    using k0 by (simp add: two_powi_nat)
  finally have jj: "(2::rat) ^ j = of_int K * ulp y" by (simp add: u K_def)
  have "of_int n * (2::rat) ^ j = of_int n * (of_int K * ulp y)" by (simp only: jj)
  also have "\<dots> = of_int (n * K) * ulp y" by simp
  finally have yK: "y = of_int (n * K) * ulp y" using y by simp
  have "y / ulp y = of_int (n * K)"
  proof -
    have "y / ulp y = of_int (n * K) * ulp y / ulp y" using yK by simp
    then show ?thesis by simp
  qed
  then have "round_half_even (y / ulp y) = n * K" by (simp only: round_half_even_of_int)
  then show ?thesis using yK by simp
qed


lemma round_float64_exact:
  assumes "1 \<le> n" and "n < 2 ^ 53" and "of_int n * 2 ^ j < (2::rat) powi 1024"
  shows "round_float64 (of_int n * 2 ^ j) = Finite (of_int n * 2 ^ j)"
proof -
  let ?y = "of_int n * (2::rat) ^ j"
  have pos: "0 < ?y" using assms(1) by simp
  have r: "of_int (round_half_even (?y / ulp ?y)) * ulp ?y = ?y"
    by (rule round_exact [OF assms(1,2) refl])
  have ab: "\<bar>?y\<bar> = ?y" using pos by simp
  have nz: "?y \<noteq> 0" using assms(1) by simp
  have fin: "\<not> (2::rat) powi 1024 \<le> ?y" using assms(3) by (simp only: not_le)
  show ?thesis
    unfolding round_float64_def Let_def ab r
    using pos nz fin by (simp only: if_False if_True)
qed


lemma below_overflow: "x \<le> 2 ^ 63 \<Longrightarrow> \<not> (2::rat) powi 1024 \<le> x"
proof -
  assume "x \<le> 2 ^ 63"
  also have "(2::rat) ^ 63 = 2 powi 63" by simp
  also have "(2::rat) powi 63 < 2 powi 1024"
    by (rule power_int_strict_increasing) simp_all
  finally show ?thesis by (simp only: not_le)
qed

lemma round_float64_int:
  assumes "0 \<le> x" and "x \<le> 2 ^ 53"
  shows "round_float64 (of_int x) = Finite (of_int x)"
proof -
  consider "x = 0" | "1 \<le> x" "x < 2 ^ 53" | "x = 2 ^ 53"
    using assms by linarith
  then show ?thesis
  proof cases
    case 1
    then show ?thesis by (simp add: round_float64_def)
  next
    case 2
    have "(of_int x :: rat) \<le> of_int (2 ^ 53)" using assms(2) by (simp only: of_int_le_iff)
    then have "(of_int x :: rat) \<le> 2 ^ 63" by simp
    then have "of_int x * 2 ^ 0 < (2::rat) powi 1024"
      using below_overflow [of "of_int x"] by (simp only: not_le power_0 mult_1_right)
    from round_float64_exact [OF 2 this] show ?thesis by simp
  next
    case 3
    have "of_int 1 * 2 ^ 53 < (2::rat) powi 1024"
      using below_overflow [of "2 ^ 53"] by (simp add: not_le)
    from round_float64_exact [of 1 53, OF _ _ this] show ?thesis by (simp add: 3)
  qed
qed

lemma round_float64_bounds:
  assumes x1: "1 \<le> x" and x53: "x \<le> 2 ^ 53" and xy: "of_int x \<le> y"
    and top: "y \<le> 2 ^ 63 - 1024"
  shows "\<exists>r. round_float64 y = Finite r \<and> of_int x \<le> r \<and> r \<le> 2 ^ 63 - 1024"
proof -
  have y1: "1 \<le> y" using x1 xy by (meson of_int_1_le_iff order_trans)
  define r where "r = of_int (round_half_even (y / ulp y)) * ulp y"
  have lo: "of_int x \<le> r" unfolding r_def by (rule round_lower [OF x1 x53 xy])
  have hi: "r \<le> 2 ^ 63 - 1024" unfolding r_def by (rule round_upper [OF y1 top])
  have pos: "0 < y" and nz: "y \<noteq> 0" and ab: "\<bar>y\<bar> = y" using y1 by simp_all
  have "r \<le> 2 ^ 63" using hi by simp
  then have fin: "\<not> (2::rat) powi 1024 \<le> r" by (rule below_overflow)
  have "round_float64 y = Finite r"
    unfolding round_float64_def Let_def ab r_def [symmetric]
    using pos nz fin by (simp only: if_False if_True)
  with lo hi show ?thesis by blast
qed


section \<open>Polling backoff\<close>

lemma truncate_rat_of_int [simp]: "truncate_rat (of_int n) = n"
  by (simp add: truncate_rat_def)

lemma wrap_int64_id: "- (2 ^ 63) \<le> i \<Longrightarrow> i < 2 ^ 63 \<Longrightarrow> wrap_int64 i = i"
  by (simp add: wrap_int64_def)

lemma OnError_interval:
  "currentInterval (OnError u pm) =
     min (float64_to_int64 u
            (float64_mul (float64_of_int64 (currentInterval pm))
               (BackoffMultiplier (pm_config pm))))
         (MaxInterval (pm_config pm))"
  by (simp add: OnError_def Let_def min_def)

lemma OnError_config [simp]: "pm_config (OnError u pm) = pm_config pm"
  by (simp add: OnError_def Let_def)

lemma float64_mul_Finite [simp]: "float64_mul (Finite a) (Finite b) = round_float64 (a * b)"
  by (simp add: float64_mul_def)

lemma float64_to_int64_int:
  "- (2 ^ 63) \<le> k \<Longrightarrow> k < 2 ^ 63 \<Longrightarrow> float64_to_int64 u (Finite (of_int k)) = k"
  by (simp add: float64_to_int64_def)

lemma OnError_exact:
  assumes m: "BackoffMultiplier (pm_config pm) = Finite m"
    and c0: "0 \<le> currentInterval pm" and c53: "currentInterval pm \<le> 2 ^ 53"
    and prod: "of_int (currentInterval pm) * m = of_int k"
    and k0: "0 \<le> k" and k53: "k \<le> 2 ^ 53"
  shows "currentInterval (OnError u pm) = min k (MaxInterval (pm_config pm))"
proof -
  have a: "float64_of_int64 (currentInterval pm) = Finite (of_int (currentInterval pm))"
    unfolding float64_of_int64_def by (rule round_float64_int [OF c0 c53])
  have b: "round_float64 (of_int k) = Finite (of_int k)"
    by (rule round_float64_int [OF k0 k53])
  have c: "float64_to_int64 u (Finite (of_int k)) = k"
    using k0 k53 by (intro float64_to_int64_int) simp_all
  show ?thesis
    by (simp only: OnError_interval m a float64_mul_Finite prod b c)
qed

lemma OnError_mono:
  assumes m: "BackoffMultiplier (pm_config pm) = Finite m" and m1: "1 \<le> m"
    and c0: "0 \<le> currentInterval pm" and c53: "currentInterval pm \<le> 2 ^ 53"
    and top: "of_int (currentInterval pm) * m \<le> 2 ^ 63 - 1024"
    and cap: "currentInterval pm \<le> MaxInterval (pm_config pm)"
  shows "currentInterval pm \<le> currentInterval (OnError u pm)"
proof -
  let ?c = "currentInterval pm"
  have a: "float64_of_int64 ?c = Finite (of_int ?c)"
    unfolding float64_of_int64_def by (rule round_float64_int [OF c0 c53])
  have step: "currentInterval (OnError u pm)
      = min (float64_to_int64 u (round_float64 (of_int ?c * m))) (MaxInterval (pm_config pm))"
    by (simp only: OnError_interval m a float64_mul_Finite)
  show ?thesis
  proof (cases "?c = 0")
    case True
    then have "round_float64 (of_int ?c * m) = Finite 0"
      by (simp add: round_float64_def)
    then have "float64_to_int64 u (round_float64 (of_int ?c * m)) = 0"
      by (simp add: float64_to_int64_def truncate_rat_def)
    with step cap True show ?thesis by simp
  next
    case False
    with c0 have c1: "1 \<le> ?c" by simp
    have "(of_int ?c :: rat) * 1 \<le> of_int ?c * m"
      using m1 c0 by (intro mult_left_mono) simp_all
    then have le: "(of_int ?c :: rat) \<le> of_int ?c * m" by simp
    from round_float64_bounds [OF c1 c53 le top]
    obtain r where r: "round_float64 (of_int ?c * m) = Finite r"
      and lo: "of_int ?c \<le> r" and hi: "r \<le> 2 ^ 63 - 1024"
      by blast
    have r0: "0 \<le> r" using lo c0 by (meson of_int_0_le_iff order_trans)
    have fl: "?c \<le> \<lfloor>r\<rfloor>" using lo by (simp add: le_floor_iff)
    have "r < of_int (2 ^ 63)" using hi by simp
    then have fh: "\<lfloor>r\<rfloor> < 2 ^ 63" by (simp only: floor_less_iff)
    have "float64_to_int64 u (Finite r) = \<lfloor>r\<rfloor>"
      using r0 fl fh c0 by (simp add: float64_to_int64_def truncate_rat_def)
    with step r fl cap show ?thesis by simp
  qed
qed

lemma OnError_capped: "currentInterval (OnError u pm) \<le> MaxInterval (pm_config pm)"
  by (simp add: OnError_interval)


lemma round_float64_value:
  assumes "0 < y" and "of_int (round_half_even (y / ulp y)) * ulp y = r" and "r \<le> 2 ^ 63"
  shows "round_float64 y = Finite r"
proof -
  have nz: "y \<noteq> 0" and ab: "\<bar>y\<bar> = y" using assms(1) by simp_all
  have fin: "\<not> (2::rat) powi 1024 \<le> r" by (rule below_overflow [OF assms(3)])
  show ?thesis
    unfolding round_float64_def Let_def ab assms(2)
    using assms(1) nz fin by (simp only: if_False if_True)
qed

text \<open>Above \<open>2^53\<close> the conversion to \<^verbatim>\<open>float64\<close> loses the last bit: ties go to the even neighbour.\<close>

lemma float64_of_int64_inexact: "float64_of_int64 (2 ^ 53 + 1) = Finite (2 ^ 53)"
proof -
  define y :: rat where "y = 2 ^ 53 + 1"
  have y1: "1 \<le> y" and pos: "0 < y" by (simp_all add: y_def)
  have "bitlen \<lfloor>y\<rfloor> = 54"
    using bitlen_twopow_add_eq [of 1 53] by (simp add: y_def)
  then have e: "ilog2 y = 53" using y1 by (simp add: ilog2_def)
  have u: "ulp y = 2" by (simp add: ulp_def e)
  have fl: "\<lfloor>y / 2\<rfloor> = 2 ^ 52"
    by (rule floor_unique) (simp_all add: y_def)
  have d: "y / 2 - of_int (2 ^ 52) = 1 / 2" by (simp add: y_def)
  have q: "round_half_even (y / 2) = 2 ^ 52"
    unfolding round_half_even_def Let_def fl d by simp
  have r: "of_int (round_half_even (y / ulp y)) * ulp y = 2 ^ 53"
    unfolding u q by simp
  have "round_float64 y = Finite (2 ^ 53)"
    by (rule round_float64_value [OF pos r]) simp
  then show ?thesis by (simp add: float64_of_int64_def y_def)
qed


text \<open>
  Two runs at the edge of the arithmetic. From \<open>2^62\<close> ns with multiplier 2 the product
  \<open>2^63\<close> is no \<^verbatim>\<open>int64\<close>: on amd64 the new interval is the least \<^verbatim>\<open>int64\<close>, which the cap does
  not catch. From \<open>2^53 + 1\<close> ns with multiplier 1 the new interval is \<open>2^53\<close> ns, one less.
\<close>

lemma OnError_overflows:
  "currentInterval (OnError amd64 (NewPollingManager wide_config)) = - (2 ^ 63)"
proof -
  have a: "of_int 1 * 2 ^ 62 < (2::rat) powi 1024" "of_int 1 * 2 ^ 63 < (2::rat) powi 1024"
    using below_overflow [of "2 ^ 62"] below_overflow [of "2 ^ 63"] by (simp_all add: not_le)
  have c: "float64_of_int64 (2 ^ 62) = Finite (2 ^ 62)"
    using round_float64_exact [of 1 62, OF _ _ a(1)] by (simp add: float64_of_int64_def)
  have p: "round_float64 (2 ^ 62 * 2) = Finite (2 ^ 63)"
    using round_float64_exact [of 1 63, OF _ _ a(2)] by simp
  have t: "truncate_rat (2 ^ 63) = 2 ^ 63"
    using truncate_rat_of_int [of "2 ^ 63"] by simp
  have conv: "float64_to_int64 amd64 (Finite (2 ^ 63)) = - (2 ^ 63)"
    unfolding float64_to_int64_def float64.case t by (simp add: amd64_def)
  have cur: "currentInterval (NewPollingManager wide_config) = 2 ^ 62"
    and m: "BackoffMultiplier (pm_config (NewPollingManager wide_config)) = Finite 2"
    and cap: "MaxInterval (pm_config (NewPollingManager wide_config)) = 2 ^ 63 - 1"
    by (simp_all add: NewPollingManager_def wide_config_def)
  show ?thesis
    unfolding OnError_interval cur m cap c float64_mul_Finite p conv by simp
qed

lemma OnError_loses_bit:
  "currentInterval (OnError u (NewPollingManager fine_config)) = 2 ^ 53"
proof -
  have p: "round_float64 (2 ^ 53 * 1) = Finite (of_int (2 ^ 53))"
    using round_float64_int [of "2 ^ 53"] by simp
  have conv: "float64_to_int64 u (Finite (of_int (2 ^ 53))) = 2 ^ 53"
    by (rule float64_to_int64_int) simp_all
  have cur: "currentInterval (NewPollingManager fine_config) = 2 ^ 53 + 1"
    and m: "BackoffMultiplier (pm_config (NewPollingManager fine_config)) = Finite 1"
    and cap: "MaxInterval (pm_config (NewPollingManager fine_config)) = 2 ^ 63 - 1"
    by (simp_all add: NewPollingManager_def fine_config_def)
  show ?thesis
    unfolding OnError_interval cur m cap float64_of_int64_inexact float64_mul_Finite p conv
    by simp
qed

lemma backoff_example_step:
  assumes "pm_config pm = backoff_example" and "currentInterval pm = n"
    and "0 \<le> n" and "2 * n \<le> 2 ^ 53"
  shows "currentInterval (OnError u pm) = min (2 * n) (500 * Millisecond)"
proof -
  have m: "BackoffMultiplier (pm_config pm) = Finite 2"
    and cap: "MaxInterval (pm_config pm) = 500 * Millisecond"
    by (simp_all add: assms(1) backoff_example_def)
  have prod: "of_int (currentInterval pm) * (2::rat) = of_int (2 * n)"
    by (simp add: assms(2))
  have "currentInterval pm \<le> 2 ^ 53" using assms(2,3,4) by simp
  from OnError_exact [OF m _ this prod, of u] assms(2,3,4) show ?thesis
    by (simp add: cap)
qed

text \<open>
  C9 as stated fails: with the client's own polling configuration and a 10 minute
  interval, the first failure lowers the interval from 10 to 5 minutes.
\<close>

theorem C9_never_decreases_counterexample:
  "currentInterval (NewPollingManager client_polling_10min) = 10 * Minute
   \<and> currentInterval (OnError amd64 (NewPollingManager client_polling_10min)) = 5 * Minute
   \<and> \<not> (currentInterval (NewPollingManager client_polling_10min)
        \<le> currentInterval (OnError amd64 (NewPollingManager client_polling_10min)))"
proof -
  let ?pm = "NewPollingManager client_polling_10min"
  have c: "currentInterval ?pm = 10 * Minute"
    and m: "BackoffMultiplier (pm_config ?pm) = Finite 2"
    and cap: "MaxInterval (pm_config ?pm) = 5 * Minute"
    by (simp_all add: NewPollingManager_def client_polling_10min_def)
  have prod: "of_int (currentInterval ?pm) * (2::rat) = of_int (20 * Minute)"
    by (simp add: c)
  have "currentInterval (OnError amd64 ?pm) = min (20 * Minute) (MaxInterval (pm_config ?pm))"
    by (rule OnError_exact [OF m _ _ prod])
      (simp_all add: c Minute_def Second_def Millisecond_def)
  then have after: "currentInterval (OnError amd64 ?pm) = 5 * Minute"
    by (simp add: cap Minute_def Second_def Millisecond_def)
  have "\<not> (10 * Minute \<le> 5 * Minute)"
    by (simp add: Minute_def Second_def Millisecond_def)
  with c after show ?thesis by simp
qed

text \<open>
  C9 (amended): every \<^verbatim>\<open>OnError\<close> sets the interval to the minimum of the cap and of the
  product of the interval and the multiplier as \<^verbatim>\<open>float64\<close> arithmetic and the conversion
  to \<^verbatim>\<open>int64\<close> give it, so the new interval never exceeds the cap, and it counts the error.
  When the interval is between 0 and \<open>2^53\<close> ns and the exact product is an integer
  between 0 and \<open>2^53\<close>, the new interval is the minimum of that product and the cap. The
  interval does not decrease when the multiplier is finite and at least 1, the interval
  is between 0 and \<open>2^53\<close> ns and at most the cap, and the exact product is at most
  \<open>2^63 - 1024\<close>, the largest \<^verbatim>\<open>float64\<close> below \<open>2^63\<close>. With base 100 ms, multiplier 2 and
  cap 500 ms six failures give 200, 400, 500, 500, 500, 500 ms; one \<^verbatim>\<open>OnSuccess\<close> restores
  the base interval and zeroes the error count.
\<close>

theorem C9_polling_backoff:
  "currentInterval (OnError u pm) =
     min (float64_to_int64 u
            (float64_mul (float64_of_int64 (currentInterval pm))
               (BackoffMultiplier (pm_config pm))))
         (MaxInterval (pm_config pm))
   \<and> currentInterval (OnError u pm) \<le> MaxInterval (pm_config pm)
   \<and> consecutiveErrors (OnError u pm) = wrap_int64 (consecutiveErrors pm + 1)
   \<and> (- (2 ^ 63) \<le> consecutiveErrors pm \<and> consecutiveErrors pm < 2 ^ 63 - 1
      \<longrightarrow> consecutiveErrors (OnError u pm) = consecutiveErrors pm + 1)
   \<and> (BackoffMultiplier (pm_config pm) = Finite m
        \<and> 0 \<le> currentInterval pm \<and> currentInterval pm \<le> 2 ^ 53
        \<and> of_int (currentInterval pm) * m = of_int k \<and> 0 \<le> k \<and> k \<le> 2 ^ 53
      \<longrightarrow> currentInterval (OnError u pm) = min k (MaxInterval (pm_config pm)))
   \<and> (BackoffMultiplier (pm_config pm) = Finite m \<and> 1 \<le> m
        \<and> 0 \<le> currentInterval pm \<and> currentInterval pm \<le> 2 ^ 53
        \<and> of_int (currentInterval pm) * m \<le> 2 ^ 63 - 1024
        \<and> currentInterval pm \<le> MaxInterval (pm_config pm)
      \<longrightarrow> currentInterval pm \<le> currentInterval (OnError u pm))
   \<and> map (\<lambda>n. GetCurrentInterval ((OnError u ^^ n) (NewPollingManager backoff_example)))
         [1, 2, 3, 4, 5, 6]
       = map (\<lambda>ms. ms * Millisecond) [200, 400, 500, 500, 500, 500]
   \<and> currentInterval (OnSuccess pm) = Interval (pm_config pm)
   \<and> consecutiveErrors (OnSuccess pm) = 0"
proof -
  have step: "currentInterval (OnError u pm) =
     min (float64_to_int64 u
            (float64_mul (float64_of_int64 (currentInterval pm))
               (BackoffMultiplier (pm_config pm))))
         (MaxInterval (pm_config pm))"
    by (rule OnError_interval)
  have capped: "currentInterval (OnError u pm) \<le> MaxInterval (pm_config pm)"
    by (rule OnError_capped)
  have cnt: "consecutiveErrors (OnError u pm) = wrap_int64 (consecutiveErrors pm + 1)"
    by (simp add: OnError_def Let_def)
  have cnt': "- (2 ^ 63) \<le> consecutiveErrors pm \<and> consecutiveErrors pm < 2 ^ 63 - 1
      \<longrightarrow> consecutiveErrors (OnError u pm) = consecutiveErrors pm + 1"
    using wrap_int64_id [of "consecutiveErrors pm + 1"] by (simp add: cnt)
  have exact: "BackoffMultiplier (pm_config pm) = Finite m
        \<and> 0 \<le> currentInterval pm \<and> currentInterval pm \<le> 2 ^ 53
        \<and> of_int (currentInterval pm) * m = of_int k \<and> 0 \<le> k \<and> k \<le> 2 ^ 53
      \<longrightarrow> currentInterval (OnError u pm) = min k (MaxInterval (pm_config pm))"
    using OnError_exact [of pm m k u] by blast
  have mono: "BackoffMultiplier (pm_config pm) = Finite m \<and> 1 \<le> m
        \<and> 0 \<le> currentInterval pm \<and> currentInterval pm \<le> 2 ^ 53
        \<and> of_int (currentInterval pm) * m \<le> 2 ^ 63 - 1024
        \<and> currentInterval pm \<le> MaxInterval (pm_config pm)
      \<longrightarrow> currentInterval pm \<le> currentInterval (OnError u pm)"
    using OnError_mono [of pm m u] by blast
  define p0 where "p0 = NewPollingManager backoff_example"
  define p1 where "p1 = OnError u p0"
  define p2 where "p2 = OnError u p1"
  define p3 where "p3 = OnError u p2"
  define p4 where "p4 = OnError u p3"
  define p5 where "p5 = OnError u p4"
  define p6 where "p6 = OnError u p5"
  have k0: "pm_config p0 = backoff_example" "currentInterval p0 = 100 * Millisecond"
    by (simp_all add: p0_def NewPollingManager_def backoff_example_def)
  have k1: "pm_config p1 = backoff_example" "currentInterval p1 = 200 * Millisecond"
    using backoff_example_step [OF k0, of u] k0(1) by (simp_all add: p1_def Millisecond_def)
  have k2: "pm_config p2 = backoff_example" "currentInterval p2 = 400 * Millisecond"
    using backoff_example_step [OF k1, of u] k1(1) by (simp_all add: p2_def Millisecond_def)
  have k3: "pm_config p3 = backoff_example" "currentInterval p3 = 500 * Millisecond"
    using backoff_example_step [OF k2, of u] k2(1) by (simp_all add: p3_def Millisecond_def)
  have k4: "pm_config p4 = backoff_example" "currentInterval p4 = 500 * Millisecond"
    using backoff_example_step [OF k3, of u] k3(1) by (simp_all add: p4_def Millisecond_def)
  have k5: "pm_config p5 = backoff_example" "currentInterval p5 = 500 * Millisecond"
    using backoff_example_step [OF k4, of u] k4(1) by (simp_all add: p5_def Millisecond_def)
  have k6: "pm_config p6 = backoff_example" "currentInterval p6 = 500 * Millisecond"
    using backoff_example_step [OF k5, of u] k5(1) by (simp_all add: p6_def Millisecond_def)
  have seq: "map (\<lambda>n. GetCurrentInterval ((OnError u ^^ n) (NewPollingManager backoff_example)))
         [1, 2, 3, 4, 5, 6]
       = map (\<lambda>ms. ms * Millisecond) [200, 400, 500, 500, 500, 500]"
    using k1(2) k2(2) k3(2) k4(2) k5(2) k6(2)
    by (simp add: GetCurrentInterval_def numeral_eq_Suc p0_def p1_def p2_def p3_def p4_def
        p5_def p6_def)
  have ok: "currentInterval (OnSuccess pm) = Interval (pm_config pm)
      \<and> consecutiveErrors (OnSuccess pm) = 0"
    by (simp add: OnSuccess_def)
  from step capped cnt cnt' exact mono seq ok show ?thesis by blast
qed

theorem C9_polling_backoff_witness:
  "BackoffMultiplier (pm_config (NewPollingManager backoff_example)) = Finite 2
   \<and> (1::rat) \<le> 2
   \<and> 0 \<le> currentInterval (NewPollingManager backoff_example)
   \<and> currentInterval (NewPollingManager backoff_example) \<le> 2 ^ 53
   \<and> of_int (currentInterval (NewPollingManager backoff_example)) * (2::rat)
        = of_int (200 * Millisecond)
   \<and> 0 \<le> 200 * Millisecond \<and> 200 * Millisecond \<le> 2 ^ 53
   \<and> of_int (currentInterval (NewPollingManager backoff_example)) * (2::rat) \<le> 2 ^ 63 - 1024
   \<and> currentInterval (NewPollingManager backoff_example)
        \<le> MaxInterval (pm_config (NewPollingManager backoff_example))
   \<and> - (2 ^ 63) \<le> consecutiveErrors (NewPollingManager backoff_example)
   \<and> consecutiveErrors (NewPollingManager backoff_example) < 2 ^ 63 - 1
   \<and> consecutiveErrors (OnError amd64 (NewPollingManager backoff_example)) = 1
   \<and> currentInterval (OnError amd64 (NewPollingManager backoff_example)) = 200 * Millisecond
   \<and> currentInterval (NewPollingManager backoff_example)
        \<le> currentInterval (OnError amd64 (NewPollingManager backoff_example))"
proof -
  let ?pm = "NewPollingManager backoff_example"
  have h1: "BackoffMultiplier (pm_config ?pm) = Finite 2" and h2: "(1::rat) \<le> 2"
    and h3: "0 \<le> currentInterval ?pm" and h4: "currentInterval ?pm \<le> 2 ^ 53"
    and h5: "of_int (currentInterval ?pm) * (2::rat) = of_int (200 * Millisecond)"
    and h6: "0 \<le> 200 * Millisecond" and h7: "200 * Millisecond \<le> 2 ^ 53"
    and h8: "of_int (currentInterval ?pm) * (2::rat) \<le> 2 ^ 63 - 1024"
    and h9: "currentInterval ?pm \<le> MaxInterval (pm_config ?pm)"
    and h10: "- (2 ^ 63) \<le> consecutiveErrors ?pm"
    and h11: "consecutiveErrors ?pm < 2 ^ 63 - 1"
    and e0: "consecutiveErrors ?pm = 0"
    and cap: "MaxInterval (pm_config ?pm) = 500 * Millisecond"
    by (simp_all add: NewPollingManager_def backoff_example_def Millisecond_def)
  note t = C9_polling_backoff [where pm = ?pm and u = amd64 and m = 2
      and k = "200 * Millisecond"]
  have c1: "consecutiveErrors (OnError amd64 ?pm) = consecutiveErrors ?pm + 1"
    using t h10 h11 by blast
  have c2: "currentInterval (OnError amd64 ?pm)
      = min (200 * Millisecond) (MaxInterval (pm_config ?pm))"
    using t h1 h3 h4 h5 h6 h7 by blast
  have c3: "currentInterval ?pm \<le> currentInterval (OnError amd64 ?pm)"
    using t h1 h2 h3 h4 h8 h9 by blast
  have c1': "consecutiveErrors (OnError amd64 ?pm) = 1" using c1 e0 by simp
  have c2': "currentInterval (OnError amd64 ?pm) = 200 * Millisecond"
    using c2 by (simp add: cap Millisecond_def)
  from h1 h2 h3 h4 h5 h6 h7 h8 h9 h10 h11 c1' c2' c3 show ?thesis
    by (intro conjI)
qed

end
